theory Spec2Isabelle
  imports Main "HOL-Library.Sublist"
begin

section \<open>The NFS subdirectory provisioner (cmd/nfs-subdir-external-provisioner/provisioner.go)\<close>

text \<open>
  A Go string is a sequence of bytes; it is modelled as \<^typ>\<open>string\<close>, a list of
  \<^typ>\<open>char\<close> (one \<^typ>\<open>char\<close> per byte). A Go \<^verbatim>\<open>map[string]string\<close> is a partial
  function; reading an absent key (also from a nil map) yields the empty string.
\<close>

type_synonym gomap = "string \<rightharpoonup> string"

definition lookup :: "gomap \<Rightarrow> string \<Rightarrow> string" where
  "lookup m k = (case m k of None \<Rightarrow> [] | Some v \<Rightarrow> v)"

subsection \<open>Package strconv of the Go standard library\<close>

text \<open>
  \<^verbatim>\<open>strconv.ParseUint\<close>, for an explicit base between 2 and 36 (the provisioner passes 8
  and 10, never 0, so neither a base prefix nor an underscore is accepted). The
  accumulator is a \<^verbatim>\<open>uint64\<close>: its arithmetic is written out modulo \<open>2 ^ 64\<close>.
\<close>

datatype NumError = ErrSyntax | ErrRange

definition digitValue :: "char \<Rightarrow> nat option" where
  "digitValue c =
     (let b = (of_char c :: nat) in
      if 48 \<le> b \<and> b \<le> 57 then Some (b - 48)
      else if 97 \<le> b \<and> b \<le> 122 then Some (b - 97 + 10)
      else if 65 \<le> b \<and> b \<le> 90 then Some (b - 65 + 10)
      else None)"

fun ParseUint_loop :: "nat \<Rightarrow> nat \<Rightarrow> nat \<Rightarrow> string \<Rightarrow> NumError + nat" where
  "ParseUint_loop base maxVal n [] = Inr n"
| "ParseUint_loop base maxVal n (c # cs) =
     (case digitValue c of
        None \<Rightarrow> Inl ErrSyntax
      | Some d \<Rightarrow>
          if d \<ge> base then Inl ErrSyntax
          else if n \<ge> (2 ^ 64 - 1) div base + 1 then Inl ErrRange
          else
            let n' = (n * base) mod 2 ^ 64;
                n1 = (n' + d) mod 2 ^ 64
            in if n1 < n' \<or> n1 > maxVal then Inl ErrRange
               else ParseUint_loop base maxVal n1 cs)"

definition ParseUint :: "string \<Rightarrow> nat \<Rightarrow> nat \<Rightarrow> NumError + nat" where
  "ParseUint s base bitSize =
     (if s = [] then Inl ErrSyntax
      else ParseUint_loop base (2 ^ bitSize - 1) 0 s)"

text \<open>
  \<^verbatim>\<open>strconv.ParseInt\<close>: an optional sign, then \<^verbatim>\<open>ParseUint\<close>, then the range check of the
  signed type. A range error of \<^verbatim>\<open>ParseUint\<close> comes with the value \<open>maxVal\<close>, which the
  range check of \<^verbatim>\<open>ParseInt\<close> refuses again, so it stays a range error.
\<close>

definition ParseInt :: "string \<Rightarrow> nat \<Rightarrow> nat \<Rightarrow> NumError + int" where
  "ParseInt s base bitSize =
     (if s = [] then Inl ErrSyntax
      else
        let neg = (hd s = CHR ''-'');
            s' = (if hd s = CHR ''+'' \<or> hd s = CHR ''-'' then tl s else s);
            cutoff = (2::nat) ^ (bitSize - 1)
        in case ParseUint s' base bitSize of
             Inl e \<Rightarrow> Inl e
           | Inr un \<Rightarrow>
               if \<not> neg \<and> un \<ge> cutoff then Inl ErrRange
               else if neg \<and> un > cutoff then Inl ErrRange
               else Inr (if neg then - int un else int un))"

text \<open>
  \<^verbatim>\<open>strconv.Atoi\<close> is documented as \<^verbatim>\<open>ParseInt(s, 10, 0)\<close> converted to \<^verbatim>\<open>int\<close>; \<^verbatim>\<open>int\<close> has
  64 bits on the platforms the provisioner is built for.
\<close>

definition Atoi :: "string \<Rightarrow> NumError + int" where
  "Atoi s = ParseInt s 10 64"

text \<open>\<^verbatim>\<open>strconv.ParseBool\<close> accepts exactly twelve spellings.\<close>

definition ParseBool :: "string \<Rightarrow> NumError + bool" where
  "ParseBool str =
     (if str \<in> set [''1'', ''t'', ''T'', ''TRUE'', ''true'', ''True''] then Inr True
      else if str \<in> set [''0'', ''f'', ''F'', ''FALSE'', ''false'', ''False''] then Inr False
      else Inl ErrSyntax)"

subsection \<open>Errors of the provisioner\<close>

text \<open>
  The provisioner builds its errors with \<^verbatim>\<open>fmt.Errorf\<close> and \<^verbatim>\<open>errors.New\<close>, or passes on
  the error of a library call. Each place that makes an error is a constructor; the
  comment gives the message of the source.
\<close>

datatype os_error = ENOENT | EEXIST | EACCES | ENOTDIR | ENOTEMPTY | EIO

datatype api_error = NotFound | Unavailable

datatype error =
    SelectorNotSupported                 \<comment> \<open>claim Selector is not supported\<close>
  | InvalidDirectoryMode string error    \<comment> \<open>invalid directoryMode %s: %v\<close>
  | InvalidMode string NumError          \<comment> \<open>invalid mode %s: %v\<close>
  | ModeOutOfRange string                \<comment> \<open>mode must be between 0 and 0777, got %s\<close>
  | InvalidId string NumError            \<comment> \<open>invalid id %s: %v\<close>
  | IdOutOfRange string                  \<comment> \<open>id must be between 0 and 65535, got %s\<close>
  | UnableToCreateDirectory os_error     \<comment> \<open>unable to create directory to provision new pv: ...\<close>
  | OsError os_error                     \<comment> \<open>the error of os.Chmod, os.Chown, os.RemoveAll, os.Rename\<close>
  | CannotGetKubeClient                  \<comment> \<open>cannot get kube client\<close>
  | VolumeHasNoStorageClass              \<comment> \<open>volume has no storage class\<close>
  | ClientError api_error                \<comment> \<open>the error of the storage class Get\<close>
  | InvalidBool string NumError          \<comment> \<open>the error of strconv.ParseBool\<close>

subsection \<open>The parameter validators\<close>

text \<open>
  \<^verbatim>\<open>getModeFromString\<close> (lines 251-265). \<^verbatim>\<open>os.FileMode\<close> is a \<^verbatim>\<open>uint32\<close>; the conversion
  from the \<^verbatim>\<open>int64\<close> happens only after the range check, so it never wraps and the
  mode is kept as the integer. The octal literal \<^verbatim>\<open>0o777\<close> is 511.
\<close>

definition getModeFromString :: "string \<Rightarrow> error + int" where
  "getModeFromString mode =
     (if mode = [] then Inr 511
      else case ParseInt mode 8 64 of
             Inl err \<Rightarrow> Inl (InvalidMode mode err)
           | Inr modeInt \<Rightarrow>
               if modeInt < 0 \<or> modeInt > 511 then Inl (ModeOutOfRange mode)
               else Inr modeInt)"

text \<open>\<^verbatim>\<open>getIdFromString\<close> (lines 267-279).\<close>

definition getIdFromString :: "string \<Rightarrow> error + int" where
  "getIdFromString id' =
     (if id' = [] then Inr 0
      else case Atoi id' of
             Inl err \<Rightarrow> Inl (InvalidId id' err)
           | Inr idInt \<Rightarrow>
               if idInt < 0 \<or> idInt > 65535 then Inl (IdOutOfRange id')
               else Inr idInt)"

subsection \<open>Package strings of the Go standard library\<close>

text \<open>
  \<^verbatim>\<open>strings.ReplaceAll(s, old, new)\<close> replaces the non-overlapping occurrences of \<open>old\<close>,
  found from left to right (\<^verbatim>\<open>strings.Index\<close> from the end of the previous occurrence).
  With an empty \<open>old\<close> it inserts \<open>new\<close> before every UTF-8 sequence and at the end;
  that case is written here for single-byte characters, and the provisioner never
  reaches it: \<open>old\<close> is a match of the pattern below, which is never empty.
\<close>

function ReplaceAll_scan :: "string \<Rightarrow> string \<Rightarrow> string \<Rightarrow> string" where
  "ReplaceAll_scan old new [] = []"
| "ReplaceAll_scan old new (c # cs) =
     (if old \<noteq> [] \<and> prefix old (c # cs)
      then new @ ReplaceAll_scan old new (drop (length old) (c # cs))
      else c # ReplaceAll_scan old new cs)"
  by pat_completeness auto
termination
  by (relation "measure (\<lambda>(old, new, s). length s)") (auto simp: neq_Nil_conv)

definition ReplaceAll :: "string \<Rightarrow> string \<Rightarrow> string \<Rightarrow> string" where
  "ReplaceAll s old new =
     (if old = new then s
      else if old = [] then new @ concat (map (\<lambda>c. c # new) s)
      else ReplaceAll_scan old new s)"

text \<open>
  \<^verbatim>\<open>strings.Replace(s, old, new, 1)\<close>: the first occurrence only. An empty \<open>old\<close> matches
  at the beginning of the string.
\<close>

primrec Replace1_scan :: "string \<Rightarrow> string \<Rightarrow> string \<Rightarrow> string" where
  "Replace1_scan old new [] = (if old = [] then new else [])"
| "Replace1_scan old new (c # cs) =
     (if prefix old (c # cs) then new @ drop (length old) (c # cs)
      else c # Replace1_scan old new cs)"

definition Replace1 :: "string \<Rightarrow> string \<Rightarrow> string \<Rightarrow> string" where
  "Replace1 s old new = (if old = new then s else Replace1_scan old new s)"

subsection \<open>The path pattern (line 61) and package regexp\<close>

text \<open>
  The pattern is \<^verbatim>\<open>\${\.PVC\.((labels|annotations)\.(.*?)|.*?)}\<close>. Go's regexp package
  returns the leftmost match and, among the matches that start there, the one a
  backtracking search finds first; \<^verbatim>\<open>.\<close> matches every character but the newline.
  The matcher is written for this pattern: the literal \<^verbatim>\<open>${.PVC.\<close>, then the first
  alternative (group 2, a dot, the lazy group 3), then the second alternative (a lazy
  run), each closed by \<^verbatim>\<open>}\<close>. A lazy run before \<^verbatim>\<open>}\<close> ends at the first \<^verbatim>\<open>}\<close> and fails at
  a newline or at the end of the input. A match is the four strings \<^verbatim>\<open>r[0]\<close>, \<^verbatim>\<open>r[1]\<close>,
  \<^verbatim>\<open>r[2]\<close>, \<^verbatim>\<open>r[3]\<close>; a group that took no part in the match is the empty string.
\<close>

type_synonym submatch = "string \<times> string \<times> string \<times> string"

definition stripPrefix :: "string \<Rightarrow> string \<Rightarrow> string option" where
  "stripPrefix pre s = (if prefix pre s then Some (drop (length pre) s) else None)"

definition lazyUntilBrace :: "string \<Rightarrow> (string \<times> string) option" where
  "lazyUntilBrace s =
     (let dot = (\<lambda>c. c \<noteq> CHR ''}'' \<and> c \<noteq> CHR 0x0A) in
      case dropWhile dot s of
        [] \<Rightarrow> None
      | c # rest \<Rightarrow> if c = CHR ''}'' then Some (takeWhile dot s, rest) else None)"

definition firstAlternative :: "string \<Rightarrow> (string \<times> string \<times> string) option" where
  "firstAlternative s =
     (case (if prefix ''labels'' s then Some ''labels''
            else if prefix ''annotations'' s then Some ''annotations''
            else None) of
        None \<Rightarrow> None
      | Some g2 \<Rightarrow>
          (case stripPrefix ''.'' (drop (length g2) s) of
             None \<Rightarrow> None
           | Some s1 \<Rightarrow>
               (case lazyUntilBrace s1 of
                  None \<Rightarrow> None
                | Some (g3, rest) \<Rightarrow> Some (g2, g3, rest))))"

definition matchAt :: "string \<Rightarrow> (submatch \<times> string) option" where
  "matchAt s =
     (case stripPrefix ''${.PVC.'' s of
        None \<Rightarrow> None
      | Some t \<Rightarrow>
          (case firstAlternative t of
             Some (g2, g3, rest) \<Rightarrow>
               Some ((''${.PVC.'' @ g2 @ ''.'' @ g3 @ ''}'', g2 @ ''.'' @ g3, g2, g3), rest)
           | None \<Rightarrow>
               (case lazyUntilBrace t of
                  Some (g1, rest) \<Rightarrow> Some ((''${.PVC.'' @ g1 @ ''}'', g1, [], []), rest)
                | None \<Rightarrow> None)))"

lemma lazyUntilBrace_decompose:
  "lazyUntilBrace s = Some (x, rest) \<Longrightarrow> s = x @ CHR ''}'' # rest"
  unfolding lazyUntilBrace_def Let_def
  by (auto split: list.splits if_splits)
     (metis takeWhile_dropWhile_id)

lemma lazyUntilBrace_length:
  "lazyUntilBrace s = Some (x, rest) \<Longrightarrow> length s = length x + 1 + length rest"
  by (drule lazyUntilBrace_decompose) simp

lemma matchAt_shorter: "matchAt s = Some (r, rest) \<Longrightarrow> length rest < length s"
  by (auto simp: matchAt_def stripPrefix_def firstAlternative_def
      split: option.splits if_splits dest!: lazyUntilBrace_length)

text \<open>
  \<^verbatim>\<open>pattern.FindAllStringSubmatch(str, -1)\<close>: the successive non-overlapping matches. The
  pattern has no anchor and no empty match, so the search after a match is the search
  in the rest of the string.
\<close>

function FindAllStringSubmatch :: "string \<Rightarrow> submatch list" where
  "FindAllStringSubmatch [] = []"
| "FindAllStringSubmatch (c # cs) =
     (case matchAt (c # cs) of
        Some (r, rest) \<Rightarrow> r # FindAllStringSubmatch rest
      | None \<Rightarrow> FindAllStringSubmatch cs)"
  by pat_completeness auto
termination
  by (relation "measure length") (auto dest: matchAt_shorter)

subsection \<open>The metadata resolver (lines 55-77)\<close>

record pvcMetadata =
  data :: gomap
  labels :: gomap
  annotations :: gomap

text \<open>The body of the loop of \<^verbatim>\<open>stringParser\<close>: the switch on \<^verbatim>\<open>r[2]\<close>.\<close>

fun replaceMatch :: "pvcMetadata \<Rightarrow> string \<Rightarrow> submatch \<Rightarrow> string" where
  "replaceMatch meta str (r0, r1, r2, r3) =
     (if r2 = ''labels'' then ReplaceAll str r0 (lookup (labels meta) r3)
      else if r2 = ''annotations'' then ReplaceAll str r0 (lookup (annotations meta) r3)
      else ReplaceAll str r0 (lookup (data meta) r1))"

definition stringParser :: "pvcMetadata \<Rightarrow> string \<Rightarrow> string" where
  "stringParser meta str = foldl (replaceMatch meta) str (FindAllStringSubmatch str)"

subsection \<open>Package path/filepath of the Go standard library (Unix)\<close>

text \<open>
  \<^verbatim>\<open>filepath.Clean\<close> after its documented rules: runs of separators become one, every
  \<^verbatim>\<open>.\<close> element goes, every inner \<^verbatim>\<open>..\<close> element goes together with the element before
  it, a \<^verbatim>\<open>..\<close> that begins a rooted path goes, and the empty result is \<^verbatim>\<open>.\<close>. The output
  is kept as the list of its elements: the leading \<^verbatim>\<open>..\<close> elements of an unrooted
  path, then the ordinary elements.
\<close>

primrec splitFrom :: "string \<Rightarrow> string \<Rightarrow> string list" where
  "splitFrom cur [] = [cur]"
| "splitFrom cur (c # cs) =
     (if c = CHR ''/'' then cur # splitFrom [] cs else splitFrom (cur @ [c]) cs)"

definition splitSlash :: "string \<Rightarrow> string list" where
  "splitSlash s = splitFrom [] s"

fun joinSlash :: "string list \<Rightarrow> string" where
  "joinSlash [] = []"
| "joinSlash [e] = e"
| "joinSlash (e # es) = e @ CHR ''/'' # joinSlash es"

definition cleanStep :: "bool \<Rightarrow> string list \<Rightarrow> string \<Rightarrow> string list" where
  "cleanStep rooted out e =
     (if e = [] \<or> e = ''.'' then out
      else if e = ''..'' then
        (if out \<noteq> [] \<and> last out \<noteq> ''..'' then butlast out
         else if \<not> rooted then out @ [''..'']
         else out)
      else out @ [e])"

definition Clean :: "string \<Rightarrow> string" where
  "Clean p =
     (if p = [] then ''.''
      else
        let rooted = (hd p = CHR ''/'');
            out = foldl (cleanStep rooted) [] (splitSlash p)
        in if rooted then CHR ''/'' # joinSlash out
           else if out = [] then ''.''
           else joinSlash out)"

text \<open>\<^verbatim>\<open>filepath.Join\<close> of two elements: empty elements are ignored, the rest is cleaned.\<close>

definition Join :: "string \<Rightarrow> string \<Rightarrow> string" where
  "Join a b =
     (if a \<noteq> [] then Clean (a @ ''/'' @ b)
      else if b \<noteq> [] then Clean b
      else [])"

text \<open>\<^verbatim>\<open>filepath.Base\<close>: the last element, after the trailing separators are dropped.\<close>

definition Base :: "string \<Rightarrow> string" where
  "Base p =
     (if p = [] then ''.''
      else
        let q = rev (dropWhile (\<lambda>c. c = CHR ''/'') (rev p));
            b = rev (takeWhile (\<lambda>c. c \<noteq> CHR ''/'') (rev q))
        in if b = [] then ''/'' else b)"

subsection \<open>The operating system and the cluster, as the provisioner sees them\<close>

text \<open>
  The file system is outside the program. A state of the world has an arbitrary type
  \<open>'w\<close>, and the calls of package os that the provisioner makes are the fields of a
  record: each takes the state and returns the error of the call (\<open>None\<close> for Go's
  \<^verbatim>\<open>nil\<close>) and, when the call can change the file system, the state after it. The
  theorems below hold for every such record, so for every behaviour of the operating
  system; \<open>refOS\<close> further down is one instance, used to run the model.
\<close>

record 'w OS =
  Stat :: "string \<Rightarrow> 'w \<Rightarrow> os_error option"
  MkdirAll :: "string \<Rightarrow> int \<Rightarrow> 'w \<Rightarrow> os_error option \<times> 'w"
  Chmod :: "string \<Rightarrow> int \<Rightarrow> 'w \<Rightarrow> os_error option \<times> 'w"
  Chown :: "string \<Rightarrow> int \<Rightarrow> int \<Rightarrow> 'w \<Rightarrow> os_error option \<times> 'w"
  RemoveAll :: "string \<Rightarrow> 'w \<Rightarrow> os_error option \<times> 'w"
  Rename :: "string \<Rightarrow> string \<Rightarrow> 'w \<Rightarrow> os_error option \<times> 'w"

definition IsNotExist :: "os_error option \<Rightarrow> bool" where
  "IsNotExist err = (err = Some ENOENT)"

text \<open>The calls of glog, in the order they are made; the entries of level V(4) are
  written only at that verbosity.\<close>

datatype log_entry =
    InfoVolumeOptions                       \<comment> \<open>V(4): nfs provisioner: VolumeOptions %v\<close>
  | InfoCreatingPath string                 \<comment> \<open>V(4): creating path %s\<close>
  | ErrorInvalidDirectoryUid string error   \<comment> \<open>Errorf: invalid directoryUid %s: %v\<close>
  | ErrorInvalidDirectoryGid string error   \<comment> \<open>Errorf: invalid directoryGid %s: %v\<close>
  | WarningPathDoesNotExist string          \<comment> \<open>Warningf: path %s does not exist, deletion skipped\<close>
  | InfoArchivingPath string string         \<comment> \<open>V(4): archiving path %s to %s\<close>

text \<open>
  The objects of the Kubernetes API, with the fields the provisioner reads or writes.
  Pointers that the controller library never passes as nil (the claim, the storage
  class, its reclaim policy, the NFS source of a volume of this provisioner) are
  plain values; the selector of a claim, which the code tests against nil, is an
  option.
\<close>

type_synonym LabelSelector = "(string \<times> string) list"

record StorageClass =
  Parameters :: gomap
  ReclaimPolicy :: string
  MountOptions :: "string list"

record PersistentVolumeClaim =
  Namespace :: string
  Name :: string
  Labels :: gomap
  Annotations :: gomap
  Selector :: "LabelSelector option"
  AccessModes :: "string list"
  StorageRequest :: int

record ProvisionOptions =
  StorageClass :: StorageClass
  PVName :: string
  PVC :: PersistentVolumeClaim

record NFSVolumeSource =
  Server :: string
  Path :: string
  ReadOnly :: bool

record PersistentVolume =
  VolumeName :: string
  VolumeAnnotations :: gomap
  StorageClassName :: string
  PersistentVolumeReclaimPolicy :: string
  VolumeAccessModes :: "string list"
  VolumeMountOptions :: "string list"
  Capacity :: int
  NFS :: NFSVolumeSource

datatype ProvisioningState = ProvisioningFinished | NoState

text \<open>
  \<^verbatim>\<open>nfsProvisioner\<close> (lines 46-53). The client is nil or answers a \<^verbatim>\<open>Get\<close> of a storage
  class by name.
\<close>

record nfsProvisioner =
  client :: "(string \<Rightarrow> api_error + StorageClass) option"
  server :: string
  path :: string
  defaultMode :: int
  defaultUid :: int
  defaultGid :: int

definition mountPath :: string where
  "mountPath = ''/persistentvolumes''"

definition annotationPrefix :: string where
  "annotationPrefix = ''k8s-sigs.io''"

subsection \<open>Provision (lines 86-187)\<close>

text \<open>Line 95: \<^verbatim>\<open>strings.Join([]string{pvcNamespace, pvcName, options.PVName}, "-")\<close>.\<close>

definition pvNameOf :: "ProvisionOptions \<Rightarrow> string" where
  "pvNameOf options =
     Namespace (PVC options) @ ''-'' @ Name (PVC options) @ ''-'' @ PVName options"

text \<open>Lines 97-104.\<close>

definition metadataOf :: "ProvisionOptions \<Rightarrow> pvcMetadata" where
  "metadataOf options =
     \<lparr>data = [''name'' \<mapsto> Name (PVC options), ''namespace'' \<mapsto> Namespace (PVC options)],
      labels = Labels (PVC options),
      annotations = Annotations (PVC options)\<rparr>"

text \<open>Lines 106-116: the pair \<^verbatim>\<open>(fullPath, path)\<close>, the local and the server path.\<close>

definition provisionPaths :: "nfsProvisioner \<Rightarrow> ProvisionOptions \<Rightarrow> string \<times> string" where
  "provisionPaths p options =
     (let pvName = pvNameOf options;
          fullPath = Join mountPath pvName;
          path' = Join (path p) pvName
      in case Parameters (StorageClass options) ''pathPattern'' of
           None \<Rightarrow> (fullPath, path')
         | Some pathPattern \<Rightarrow>
             let customPath = stringParser (metadataOf options) pathPattern
             in if customPath \<noteq> [] then (Join mountPath customPath, Join (path p) customPath)
                else (fullPath, path'))"


text \<open>
  Lines 119-124, the mode to create the directory with, and lines 138-149 and 150-161,
  the same code for the uid and for the gid: the id to use and the error that is
  logged, if any.
\<close>

definition requestedMode :: "int \<Rightarrow> string \<Rightarrow> error + int" where
  "requestedMode fallback pvcMode =
     (if pvcMode \<noteq> [] then getModeFromString pvcMode else Inr fallback)"

definition requestedId :: "int \<Rightarrow> string \<Rightarrow> int \<times> error option" where
  "requestedId fallback pvcId =
     (if pvcId \<noteq> [] then
        (case getIdFromString pvcId of
           Inl err \<Rightarrow> (fallback, Some err)
         | Inr id' \<Rightarrow> (id', None))
      else (fallback, None))"

definition Provision ::
  "'w OS \<Rightarrow> nfsProvisioner \<Rightarrow> ProvisionOptions \<Rightarrow> 'w \<Rightarrow>
     (PersistentVolume option \<times> ProvisioningState \<times> error option) \<times> log_entry list \<times> 'w" where
  "Provision os p options w =
     (if Selector (PVC options) \<noteq> None
      then ((None, ProvisioningFinished, Some SelectorNotSupported), [], w)
      else
        let metadata = metadataOf options;
            (fullPath, path') = provisionPaths p options;
            pvcMode = lookup (annotations metadata) (annotationPrefix @ ''/nfs-directory-mode'');
            log0 = [InfoVolumeOptions]
        in case requestedMode (defaultMode p) pvcMode of
             Inl err \<Rightarrow>
               ((None, ProvisioningFinished, Some (InvalidDirectoryMode pvcMode err)), log0, w)
           | Inr mode \<Rightarrow>
               let log1 = log0 @ [InfoCreatingPath fullPath] in
               (case MkdirAll os fullPath mode w of
                  (Some err, w1) \<Rightarrow>
                    ((None, ProvisioningFinished, Some (UnableToCreateDirectory err)), log1, w1)
                | (None, w1) \<Rightarrow>
                    (case Chmod os fullPath mode w1 of
                       (Some err, w2) \<Rightarrow> ((None, NoState, Some (OsError err)), log1, w2)
                     | (None, w2) \<Rightarrow>
                         let pvcUid = lookup (annotations metadata)
                                        (annotationPrefix @ ''/nfs-directory-uid'');
                             (uid, uidErr) = requestedId (defaultUid p) pvcUid;
                             pvcGid = lookup (annotations metadata)
                                        (annotationPrefix @ ''/nfs-directory-gid'');
                             (gid, gidErr) = requestedId (defaultGid p) pvcGid;
                             log2 = log1
                               @ (case uidErr of None \<Rightarrow> []
                                  | Some err \<Rightarrow> [ErrorInvalidDirectoryUid pvcUid err])
                               @ (case gidErr of None \<Rightarrow> []
                                  | Some err \<Rightarrow> [ErrorInvalidDirectoryGid pvcGid err])
                         in (case Chown os fullPath uid gid w2 of
                               (Some err, w3) \<Rightarrow> ((None, NoState, Some (OsError err)), log2, w3)
                             | (None, w3) \<Rightarrow>
                                 ((Some \<lparr>VolumeName = PVName options,
                                         VolumeAnnotations = Map.empty,
                                         StorageClassName = [],
                                         PersistentVolumeReclaimPolicy =
                                           ReclaimPolicy (StorageClass options),
                                         VolumeAccessModes = AccessModes (PVC options),
                                         VolumeMountOptions = MountOptions (StorageClass options),
                                         Capacity = StorageRequest (PVC options),
                                         NFS = \<lparr>Server = server p, Path = path',
                                                ReadOnly = False\<rparr>\<rparr>,
                                   ProvisioningFinished, None), log2, w3)))))"

subsection \<open>Delete (lines 189-249)\<close>

text \<open>\<^verbatim>\<open>storagehelpers.GetPersistentVolumeClass\<close>: the beta annotation, else the field.\<close>

definition GetPersistentVolumeClass :: "PersistentVolume \<Rightarrow> string" where
  "GetPersistentVolumeClass pv =
     (case VolumeAnnotations pv ''volume.beta.kubernetes.io/storage-class'' of
        Some class' \<Rightarrow> class'
      | None \<Rightarrow> StorageClassName pv)"

definition getClassForVolume :: "nfsProvisioner \<Rightarrow> PersistentVolume \<Rightarrow> error + StorageClass" where
  "getClassForVolume p pv =
     (case client p of
        None \<Rightarrow> Inl CannotGetKubeClient
      | Some get \<Rightarrow>
          let className = GetPersistentVolumeClass pv
          in if className = [] then Inl VolumeHasNoStorageClass
             else (case get className of
                     Inl err \<Rightarrow> Inl (ClientError err)
                   | Inr class' \<Rightarrow> Inr class'))"

text \<open>The result of a call of package os that \<^verbatim>\<open>Delete\<close> returns as it is.\<close>

definition returned :: "os_error option \<times> 'w \<Rightarrow> log_entry list \<Rightarrow> error option \<times> log_entry list \<times> 'w" where
  "returned r lg = (map_option OsError (fst r), lg, snd r)"

text \<open>Lines 190-192 and 229: the local path of the volume and the path it is archived to.\<close>

definition oldPath :: "nfsProvisioner \<Rightarrow> PersistentVolume \<Rightarrow> string" where
  "oldPath p volume = Replace1 (Path (NFS volume)) (path p) mountPath"

definition archivePath :: "PersistentVolume \<Rightarrow> string" where
  "archivePath volume = Join mountPath (''archived-'' @ Base (Path (NFS volume)))"

definition Delete ::
  "'w OS \<Rightarrow> nfsProvisioner \<Rightarrow> PersistentVolume \<Rightarrow> 'w \<Rightarrow> error option \<times> log_entry list \<times> 'w" where
  "Delete os p volume w =
     (if IsNotExist (Stat os (oldPath p volume) w)
      then (None, [WarningPathDoesNotExist (oldPath p volume)], w)
      else
        (case getClassForVolume p volume of
           Inl err \<Rightarrow> (Some err, [], w)
         | Inr storageClass \<Rightarrow>
             let onDelete = lookup (Parameters storageClass) ''onDelete'';
                 archive = returned (Rename os (oldPath p volume) (archivePath volume) w)
                             [InfoArchivingPath (oldPath p volume) (archivePath volume)]
             in if onDelete = ''delete'' then returned (RemoveAll os (oldPath p volume) w) []
                else if onDelete = ''retain'' then (None, [], w)
                else
                  (case Parameters storageClass ''archiveOnDelete'' of
                     Some archiveOnDelete \<Rightarrow>
                       (case ParseBool archiveOnDelete of
                          Inl err \<Rightarrow> (Some (InvalidBool archiveOnDelete err), [], w)
                        | Inr archiveBool \<Rightarrow>
                            if \<not> archiveBool then returned (RemoveAll os (oldPath p volume) w) []
                            else archive)
                   | None \<Rightarrow> archive)))"

subsection \<open>A reference file system\<close>

text \<open>
  One instance of the operating system, to run the model on concrete inputs; the
  general statements below hold for every instance. The state is the list of the
  directories that exist, each with its mode, owner and group. \<open>RemoveAll\<close> removes a
  directory with everything below it, \<open>Rename\<close> moves a directory with everything
  below it and refuses a target that exists, \<open>Chmod\<close> and \<open>Chown\<close> need the directory
  to exist. It is simpler than a real file system: \<open>MkdirAll\<close> never fails and records
  the named directory only, its parents being taken to exist, and names are compared
  as strings, so the examples use clean paths directly under the mount root.
\<close>

type_synonym fs = "(string \<times> int \<times> int \<times> int) list"

definition fsExists :: "string \<Rightarrow> fs \<Rightarrow> bool" where
  "fsExists name w = (name \<in> set (map fst w))"

definition under :: "string \<Rightarrow> string \<Rightarrow> bool" where
  "under dir name = (name = dir \<or> prefix (dir @ ''/'') name)"

definition refOS :: "fs OS" where
  "refOS =
     \<lparr>Stat = (\<lambda>name w. if fsExists name w then None else Some ENOENT),
      MkdirAll = (\<lambda>name mode w.
        if fsExists name w then (None, w) else (None, w @ [(name, mode, 0, 0)])),
      Chmod = (\<lambda>name mode w.
        if fsExists name w
        then (None, map (\<lambda>(n, m, u, g). if n = name then (n, mode, u, g) else (n, m, u, g)) w)
        else (Some ENOENT, w)),
      Chown = (\<lambda>name uid gid w.
        if fsExists name w
        then (None, map (\<lambda>(n, m, u, g). if n = name then (n, m, uid, gid) else (n, m, u, g)) w)
        else (Some ENOENT, w)),
      RemoveAll = (\<lambda>name w. (None, filter (\<lambda>(n, m, u, g). \<not> under name n) w)),
      Rename = (\<lambda>old new w.
        if \<not> fsExists old w then (Some ENOENT, w)
        else if fsExists new w then (Some EEXIST, w)
        else (None, map (\<lambda>(n, m, u, g).
                if under old n then (new @ drop (length old) n, m, u, g) else (n, m, u, g)) w))\<rparr>"

section \<open>What the specification says, for comparison with the code\<close>

text \<open>
  The numeral a string denotes in a base up to ten: an optional sign and at least one
  digit below the base, read most significant digit first. \<open>None\<close> when the string is
  not of that form.
\<close>

definition isDigitBelow :: "nat \<Rightarrow> char \<Rightarrow> bool" where
  "isDigitBelow base c = (48 \<le> (of_char c :: nat) \<and> (of_char c :: nat) < 48 + base)"

definition digitsValue :: "nat \<Rightarrow> nat \<Rightarrow> string \<Rightarrow> nat" where
  "digitsValue base n ds = foldl (\<lambda>n c. n * base + (of_char c - 48)) n ds"

definition signedNumeral :: "nat \<Rightarrow> string \<Rightarrow> int option" where
  "signedNumeral base s =
     (let neg = (s \<noteq> [] \<and> hd s = CHR ''-'');
          ds = (if s \<noteq> [] \<and> (hd s = CHR ''+'' \<or> hd s = CHR ''-'') then tl s else s)
      in if ds \<noteq> [] \<and> list_all (isDigitBelow base) ds
         then Some (if neg then - int (digitsValue base 0 ds) else int (digitsValue base 0 ds))
         else None)"

text \<open>
  The substitution as the specification describes it, in one pass from left to right:
  a placeholder is \<^verbatim>\<open>${.PVC.\<close>, a body without \<^verbatim>\<open>}\<close> and without newline, and \<^verbatim>\<open>}\<close>; its
  value is the label or the annotation named after \<^verbatim>\<open>labels.\<close> or \<^verbatim>\<open>annotations.\<close>, else
  the entry of the body in \<^verbatim>\<open>data\<close>, and the empty string when there is none. Every
  placeholder is replaced by its value and the values are not read again.
\<close>

definition placeholderAt :: "string \<Rightarrow> (string \<times> string) option" where
  "placeholderAt s =
     (case stripPrefix ''${.PVC.'' s of
        None \<Rightarrow> None
      | Some t \<Rightarrow> lazyUntilBrace t)"

definition placeholderValue :: "pvcMetadata \<Rightarrow> string \<Rightarrow> string" where
  "placeholderValue meta body =
     (if prefix ''labels.'' body then lookup (labels meta) (drop 7 body)
      else if prefix ''annotations.'' body then lookup (annotations meta) (drop 12 body)
      else lookup (data meta) body)"

lemma placeholderAt_shorter: "placeholderAt s = Some (body, rest) \<Longrightarrow> length rest < length s"
  by (auto simp: placeholderAt_def stripPrefix_def split: option.splits if_splits
      dest!: lazyUntilBrace_length)

function substituteOnce :: "pvcMetadata \<Rightarrow> string \<Rightarrow> string" where
  "substituteOnce meta [] = []"
| "substituteOnce meta (c # cs) =
     (case placeholderAt (c # cs) of
        Some (body, rest) \<Rightarrow> placeholderValue meta body @ substituteOnce meta rest
      | None \<Rightarrow> c # substituteOnce meta cs)"
  by pat_completeness auto
termination
  by (relation "measure (\<lambda>(meta, s). length s)") (auto dest: placeholderAt_shorter)

text \<open>
  The number of \<^verbatim>\<open>$\<close> characters of a template, and metadata none of whose values
  contains a \<^verbatim>\<open>$\<close>.
\<close>

definition dollars :: "string \<Rightarrow> nat" where
  "dollars s = length (filter (\<lambda>c. c = CHR ''$'') s)"

definition dollarFree :: "pvcMetadata \<Rightarrow> bool" where
  "dollarFree meta =
     (\<forall>k. CHR ''$'' \<notin> set (lookup (data meta) k) \<and>
          CHR ''$'' \<notin> set (lookup (labels meta) k) \<and>
          CHR ''$'' \<notin> set (lookup (annotations meta) k))"

text \<open>
  A path that \<^verbatim>\<open>filepath.Clean\<close> leaves as it is: its elements are not empty and are
  neither \<^verbatim>\<open>.\<close> nor \<^verbatim>\<open>..\<close>; a rooted one starts with the separator.
\<close>

definition plain :: "string \<Rightarrow> bool" where
  "plain e = (e \<noteq> [] \<and> e \<noteq> ''.'' \<and> e \<noteq> ''..'' \<and> CHR ''/'' \<notin> set e)"

definition cleanRelative :: "string \<Rightarrow> bool" where
  "cleanRelative s = list_all plain (splitSlash s)"

definition cleanRooted :: "string \<Rightarrow> bool" where
  "cleanRooted s = (s \<noteq> [] \<and> hd s = CHR ''/'' \<and> cleanRelative (tl s))"

text \<open>
  The three annotations of the claim that \<^verbatim>\<open>Provision\<close> reads (lines 120, 139, 151).
\<close>

definition modeAnnotation :: "ProvisionOptions \<Rightarrow> string" where
  "modeAnnotation options = lookup (Annotations (PVC options)) ''k8s-sigs.io/nfs-directory-mode''"

definition uidAnnotation :: "ProvisionOptions \<Rightarrow> string" where
  "uidAnnotation options = lookup (Annotations (PVC options)) ''k8s-sigs.io/nfs-directory-uid''"

definition gidAnnotation :: "ProvisionOptions \<Rightarrow> string" where
  "gidAnnotation options = lookup (Annotations (PVC options)) ''k8s-sigs.io/nfs-directory-gid''"

section \<open>Example inputs\<close>

text \<open>
  The claim \<open>default/data\<close> with the label \<open>tier=gold\<close>, provisioned as \<open>pvc-1\<close> by a
  provisioner that exports \<open>/export\<close>; the storage class parameters and the annotations
  of the claim vary from one example to the next.
\<close>

definition exampleClass :: "gomap \<Rightarrow> StorageClass" where
  "exampleClass params = \<lparr>Parameters = params, ReclaimPolicy = ''Delete'', MountOptions = []\<rparr>"

definition exampleProvisioner :: "gomap \<Rightarrow> nfsProvisioner" where
  "exampleProvisioner params =
     \<lparr>client = Some (\<lambda>name. if name = ''nfs-client'' then Inr (exampleClass params)
                              else Inl NotFound),
      server = ''nfs.example.com'', path = ''/export'',
      defaultMode = 511, defaultUid = 1000, defaultGid = 100\<rparr>"

definition exampleOptions :: "gomap \<Rightarrow> gomap \<Rightarrow> ProvisionOptions" where
  "exampleOptions params annots =
     \<lparr>StorageClass = exampleClass params,
      PVName = ''pvc-1'',
      PVC = \<lparr>Namespace = ''default'', Name = ''data'', Labels = [''tier'' \<mapsto> ''gold''],
             Annotations = annots, Selector = None, AccessModes = [''ReadWriteMany''],
             StorageRequest = 1\<rparr>\<rparr>"

definition withSelector :: "LabelSelector \<Rightarrow> ProvisionOptions \<Rightarrow> ProvisionOptions" where
  "withSelector sel options = options\<lparr>PVC := (PVC options)\<lparr>Selector := Some sel\<rparr>\<rparr>"

definition exampleVolume :: "string \<Rightarrow> PersistentVolume" where
  "exampleVolume serverPath =
     \<lparr>VolumeName = ''pvc-1'', VolumeAnnotations = Map.empty, StorageClassName = ''nfs-client'',
      PersistentVolumeReclaimPolicy = ''Delete'', VolumeAccessModes = [''ReadWriteMany''],
      VolumeMountOptions = [], Capacity = 1,
      NFS = \<lparr>Server = ''nfs.example.com'', Path = serverPath, ReadOnly = False\<rparr>\<rparr>"

definition badIdAnnotations :: gomap where
  "badIdAnnotations =
     [''k8s-sigs.io/nfs-directory-mode'' \<mapsto> ''0700'',
      ''k8s-sigs.io/nfs-directory-uid'' \<mapsto> ''70000'',
      ''k8s-sigs.io/nfs-directory-gid'' \<mapsto> ''abc'']"

definition exampleTree :: fs where
  "exampleTree =
     [(''/persistentvolumes/default-data-pvc-1'', 511, 1000, 100),
      (''/persistentvolumes/default-data-pvc-1/a'', 493, 1000, 100)]"

definition injectedAnnotations :: gomap where
  "injectedAnnotations = [''a'' \<mapsto> ''${.PVC.name}'']"

definition dirAnnotations :: gomap where
  "dirAnnotations = [''dir'' \<mapsto> ''${.PVC.name}'']"



section \<open>Auxiliary definitions of the proofs\<close>

text \<open>
  A template cut into its placeholders and the characters between them; \<open>groups\<close> are
  the four strings of the match of a placeholder with a given body.
\<close>

definition notBrace :: "char \<Rightarrow> bool" where
  "notBrace c = (c \<noteq> CHR ''}'' \<and> c \<noteq> CHR 0x0A)"

definition groups :: "string \<Rightarrow> submatch" where
  "groups body =
     (if prefix ''labels.'' body
      then (''${.PVC.'' @ body @ ''}'', body, ''labels'', drop 7 body)
      else if prefix ''annotations.'' body
      then (''${.PVC.'' @ body @ ''}'', body, ''annotations'', drop 12 body)
      else (''${.PVC.'' @ body @ ''}'', body, [], []))"

datatype piece = Lit char | Hole string

fun raw :: "piece \<Rightarrow> string" where
  "raw (Lit c) = [c]"
| "raw (Hole body) = ''${.PVC.'' @ body @ ''}''"

fun rendered :: "pvcMetadata \<Rightarrow> piece \<Rightarrow> string" where
  "rendered meta (Lit c) = [c]"
| "rendered meta (Hole body) = placeholderValue meta body"

fun good :: "piece \<Rightarrow> bool" where
  "good (Lit c) = (c \<noteq> CHR ''$'')"
| "good (Hole body) = (CHR ''$'' \<notin> set body \<and> list_all notBrace body)"

function pieces :: "string \<Rightarrow> piece list" where
  "pieces [] = []"
| "pieces (c # cs) =
     (case placeholderAt (c # cs) of
        Some (body, rest) \<Rightarrow> Hole body # pieces rest
      | None \<Rightarrow> Lit c # pieces cs)"
  by pat_completeness auto
termination
  by (relation "measure length") (auto dest: placeholderAt_shorter)

fun holeBodies :: "piece list \<Rightarrow> string list" where
  "holeBodies [] = []"
| "holeBodies (Lit c # ps) = holeBodies ps"
| "holeBodies (Hole body # ps) = body # holeBodies ps"

definition fill :: "string \<Rightarrow> string \<Rightarrow> piece list \<Rightarrow> piece list" where
  "fill body v ps = concat (map (\<lambda>pc. if pc = Hole body then map Lit v else [pc]) ps)"

section \<open>Properties\<close>

subsection \<open>The parsers of strconv compute the numeral\<close>

lemma digitValue_below:
  assumes "base \<le> 10"
  shows "(digitValue c = Some d \<and> d < base) \<longleftrightarrow> (isDigitBelow base c \<and> d = of_char c - 48)"
  using assms by (auto simp: digitValue_def isDigitBelow_def Let_def)

lemma digitsValue_Cons: "digitsValue base n (c # cs) = digitsValue base (n * base + (of_char c - 48)) cs"
  by (simp add: digitsValue_def)

lemma digitsValue_Nil: "digitsValue base n [] = n"
  by (simp add: digitsValue_def)

lemma digitsValue_mono: "0 < base \<Longrightarrow> n \<le> digitsValue base n ds"
proof (induction ds arbitrary: n)
  case Nil
  then show ?case by (simp add: digitsValue_Nil)
next
  case (Cons c cs)
  have "n \<le> n * base" using Cons.prems by simp
  also have "\<dots> \<le> n * base + (of_char c - 48)" by simp
  also have "\<dots> \<le> digitsValue base (n * base + (of_char c - 48)) cs"
    using Cons.IH[OF Cons.prems] .
  finally show ?case by (simp add: digitsValue_Cons)
qed

lemma cutoff_iff:
  assumes "0 < (base::nat)"
  shows "(2 ^ 64 - 1) div base + 1 \<le> n \<longleftrightarrow> 2 ^ 64 \<le> n * base"
proof -
  have "n * base \<le> 2 ^ 64 - 1 \<longleftrightarrow> n \<le> (2 ^ 64 - 1) div base"
    using assms by (simp add: less_eq_div_iff_mult_less_eq)
  then show ?thesis by auto
qed

lemma ParseUint_loop_Inr:
  assumes "2 \<le> base" "base \<le> 10"
  shows "n < 2 ^ 64 \<Longrightarrow>
    ParseUint_loop base (2 ^ 64 - 1) n ds = Inr m \<longleftrightarrow>
      list_all (isDigitBelow base) ds \<and> m = digitsValue base n ds \<and> m < 2 ^ 64"
proof (induction ds arbitrary: n)
  case Nil
  then show ?case by (auto simp: digitsValue_Nil)
next
  case (Cons c cs)
  have pos: "0 < base" using assms by simp
  show ?case
  proof (cases "digitValue c")
    case None
    then have "\<not> isDigitBelow base c"
      using digitValue_below[OF assms(2), of c "of_char c - 48"] by auto
    with None show ?thesis by simp
  next
    case (Some d)
    show ?thesis
    proof (cases "d < base")
      case False
      then have "\<not> isDigitBelow base c"
        using digitValue_below[OF assms(2), of c "of_char c - 48"] Some by auto
      with Some False show ?thesis by simp
    next
      case True
      then have dig: "isDigitBelow base c" and d: "d = of_char c - 48"
        using digitValue_below[OF assms(2), of c d] Some by auto
      let ?v = "n * base + d"
      have mono: "?v \<le> digitsValue base ?v cs" by (rule digitsValue_mono[OF pos])
      show ?thesis
      proof (cases "2 ^ 64 \<le> n * base")
        case over: True
        then have "(2 ^ 64 - 1) div base + 1 \<le> n" using cutoff_iff[OF pos] by simp
        moreover have "\<not> digitsValue base ?v cs < 2 ^ 64" using over mono by linarith
        ultimately show ?thesis using Some True d by (simp add: digitsValue_Cons)
      next
        case under: False
        then have nc: "\<not> (2 ^ 64 - 1) div base + 1 \<le> n" using cutoff_iff[OF pos] by simp
        have m1: "(n * base) mod 2 ^ 64 = n * base" using under by simp
        show ?thesis
        proof (cases "2 ^ 64 \<le> ?v")
          case over2: True
          have "d < 2 ^ 64" using True assms by simp
          then have "?v < 2 * 2 ^ 64" using under by simp
          then have "?v mod 2 ^ 64 = ?v - 2 ^ 64" using over2
            by (simp add: mod_if)
          then have "?v mod 2 ^ 64 < n * base" using \<open>d < 2 ^ 64\<close> over2 by linarith
          moreover have "\<not> digitsValue base ?v cs < 2 ^ 64" using over2 mono by linarith
          ultimately show ?thesis using Some True d nc m1
            by (simp add: digitsValue_Cons Let_def)
        next
          case under2: False
          then have m2: "?v mod 2 ^ 64 = ?v" by simp
          have "\<not> ?v < n * base" by simp
          moreover have "\<not> ?v > 2 ^ 64 - 1" using under2 by simp
          ultimately have "ParseUint_loop base (2 ^ 64 - 1) n (c # cs) =
              ParseUint_loop base (2 ^ 64 - 1) ?v cs"
            using Some True nc m1 m2 by (simp add: Let_def)
          moreover have "?v < 2 ^ 64" using under2 by simp
          ultimately show ?thesis
            using Cons.IH[of ?v] dig d by (simp add: digitsValue_Cons)
        qed
      qed
    qed
  qed
qed

lemma ParseInt_Inr:
  assumes "2 \<le> base" "base \<le> 10"
  shows "ParseInt s base 64 = Inr m \<longleftrightarrow>
     signedNumeral base s = Some m \<and> - (2 ^ 63) \<le> m \<and> m < 2 ^ 63"
proof (cases "s = []")
  case True
  then show ?thesis by (simp add: ParseInt_def signedNumeral_def)
next
  case False
  define neg where "neg = (hd s = CHR ''-'')"
  define ds where "ds = (if hd s = CHR ''+'' \<or> hd s = CHR ''-'' then tl s else s)"
  have sn: "signedNumeral base s =
      (if ds \<noteq> [] \<and> list_all (isDigitBelow base) ds
       then Some (if neg then - int (digitsValue base 0 ds) else int (digitsValue base 0 ds))
       else None)"
    using False by (simp add: signedNumeral_def neg_def ds_def)
  have pu: "ParseUint ds base 64 = Inr un \<longleftrightarrow>
      ds \<noteq> [] \<and> list_all (isDigitBelow base) ds \<and> un = digitsValue base 0 ds \<and> un < 2 ^ 64" for un
    using ParseUint_loop_Inr[OF assms, of 0 ds un] by (auto simp: ParseUint_def)
  have pi: "ParseInt s base 64 =
      (case ParseUint ds base 64 of
         Inl e \<Rightarrow> Inl e
       | Inr un \<Rightarrow>
           if \<not> neg \<and> un \<ge> 2 ^ 63 then Inl ErrRange
           else if neg \<and> un > 2 ^ 63 then Inl ErrRange
           else Inr (if neg then - int un else int un))"
    using False by (auto simp: ParseInt_def neg_def ds_def Let_def split: sum.splits)
  show ?thesis
  proof (cases "ParseUint ds base 64")
    case (Inl e)
    have "\<not> (ds \<noteq> [] \<and> list_all (isDigitBelow base) ds \<and> digitsValue base 0 ds < 2 ^ 64)"
      using pu[of "digitsValue base 0 ds"] Inl by auto
    then have "signedNumeral base s = Some m \<Longrightarrow> \<not> (- (2 ^ 63) \<le> m \<and> m < 2 ^ 63)"
      unfolding sn by (auto split: if_splits)
    with Inl pi show ?thesis by auto
  next
    case (Inr un)
    then have ok: "ds \<noteq> []" "list_all (isDigitBelow base) ds" "un = digitsValue base 0 ds" "un < 2 ^ 64"
      using pu[of un] by auto
    have sn': "signedNumeral base s = Some (if neg then - int un else int un)"
      unfolding sn using ok by simp
    show ?thesis unfolding pi Inr sn' by (auto split: if_splits)
  qed
qed

lemma getModeFromString_Inr:
  assumes "s \<noteq> []"
  shows "getModeFromString s = Inr m \<longleftrightarrow> signedNumeral 8 s = Some m \<and> 0 \<le> m \<and> m \<le> 511"
proof -
  have pi: "ParseInt s 8 64 = Inr k \<longleftrightarrow>
      signedNumeral 8 s = Some k \<and> - (2 ^ 63) \<le> k \<and> k < 2 ^ 63" for k
    by (rule ParseInt_Inr) simp_all
  show ?thesis
  proof (cases "ParseInt s 8 64")
    case (Inl e)
    then have "\<not> (signedNumeral 8 s = Some m \<and> - (2 ^ 63) \<le> m \<and> m < 2 ^ 63)"
      using pi[of m] by simp
    then have "\<not> (signedNumeral 8 s = Some m \<and> 0 \<le> m \<and> m \<le> 511)" by auto
    moreover have "getModeFromString s \<noteq> Inr m"
      using assms Inl by (simp add: getModeFromString_def)
    ultimately show ?thesis by blast
  next
    case (Inr k)
    then have k: "signedNumeral 8 s = Some k" using pi[of k] by simp
    have "getModeFromString s = (if k < 0 \<or> k > 511 then Inl (ModeOutOfRange s) else Inr k)"
      using assms Inr by (simp add: getModeFromString_def)
    then show ?thesis using k by auto
  qed
qed

lemma getIdFromString_Inr:
  assumes "s \<noteq> []"
  shows "getIdFromString s = Inr m \<longleftrightarrow> signedNumeral 10 s = Some m \<and> 0 \<le> m \<and> m \<le> 65535"
proof -
  have pi: "ParseInt s 10 64 = Inr k \<longleftrightarrow>
      signedNumeral 10 s = Some k \<and> - (2 ^ 63) \<le> k \<and> k < 2 ^ 63" for k
    by (rule ParseInt_Inr) simp_all
  show ?thesis
  proof (cases "ParseInt s 10 64")
    case (Inl e)
    then have "\<not> (signedNumeral 10 s = Some m \<and> - (2 ^ 63) \<le> m \<and> m < 2 ^ 63)"
      using pi[of m] by simp
    then have "\<not> (signedNumeral 10 s = Some m \<and> 0 \<le> m \<and> m \<le> 65535)" by auto
    moreover have "getIdFromString s \<noteq> Inr m"
      using assms Inl by (simp add: getIdFromString_def Atoi_def)
    ultimately show ?thesis by blast
  next
    case (Inr k)
    then have k: "signedNumeral 10 s = Some k" using pi[of k] by simp
    have "getIdFromString s = (if k < 0 \<or> k > 65535 then Inl (IdOutOfRange s) else Inr k)"
      using assms Inr by (simp add: getIdFromString_def Atoi_def)
    then show ?thesis using k by auto
  qed
qed

lemma getModeFromString_Inl:
  "getModeFromString s = Inl e \<Longrightarrow>
     e \<in> {InvalidMode s ErrSyntax, InvalidMode s ErrRange, ModeOutOfRange s}"
  unfolding getModeFromString_def
  by (auto split: if_splits sum.splits) (metis NumError.exhaust)

lemma getIdFromString_Inl:
  "getIdFromString s = Inl e \<Longrightarrow>
     e \<in> {InvalidId s ErrSyntax, InvalidId s ErrRange, IdOutOfRange s}"
  unfolding getIdFromString_def
  by (auto split: if_splits sum.splits) (metis NumError.exhaust)

lemmas parse_defs =
  getModeFromString_def getIdFromString_def Atoi_def ParseInt_def ParseUint_def digitValue_def

lemmas numeral_defs = signedNumeral_def isDigitBelow_def digitsValue_def

subsection \<open>The mode parser\<close>

text \<open>
  C6. The mode parser maps the empty string to 0777 (511). A non-empty string is
  accepted exactly when it denotes a base-8 integer between 0 and 0777, and the
  result is that integer; every other non-empty string yields one of the three
  errors of the parser (a syntax error, a range error of the 64-bit parse, or "mode
  must be between 0 and 0777"). "0755" gives 0755 (493), "1000" is out of range,
  "abc" does not parse.
\<close>

theorem getModeFromString_spec:
  "getModeFromString [] = Inr 511 \<and>
   (s \<noteq> [] \<longrightarrow>
      (getModeFromString s = Inr m \<longleftrightarrow> signedNumeral 8 s = Some m \<and> 0 \<le> m \<and> m \<le> 511)) \<and>
   (s \<noteq> [] \<longrightarrow> \<not> (\<exists>k. signedNumeral 8 s = Some k \<and> 0 \<le> k \<and> k \<le> 511) \<longrightarrow>
      getModeFromString s \<in>
        {Inl (InvalidMode s ErrSyntax), Inl (InvalidMode s ErrRange), Inl (ModeOutOfRange s)}) \<and>
   getModeFromString ''0755'' = Inr 493 \<and>
   getModeFromString ''1000'' = Inl (ModeOutOfRange ''1000'') \<and>
   getModeFromString ''abc'' = Inl (InvalidMode ''abc'' ErrSyntax)"
proof (intro conjI impI)
  show "getModeFromString [] = Inr 511" by (simp add: getModeFromString_def)
next
  assume "s \<noteq> []"
  then show "getModeFromString s = Inr m \<longleftrightarrow> signedNumeral 8 s = Some m \<and> 0 \<le> m \<and> m \<le> 511"
    by (rule getModeFromString_Inr)
next
  assume ne: "s \<noteq> []" and no: "\<not> (\<exists>k. signedNumeral 8 s = Some k \<and> 0 \<le> k \<and> k \<le> 511)"
  show "getModeFromString s \<in>
      {Inl (InvalidMode s ErrSyntax), Inl (InvalidMode s ErrRange), Inl (ModeOutOfRange s)}"
  proof (cases "getModeFromString s")
    case (Inl e)
    then show ?thesis using getModeFromString_Inl[OF Inl] by auto
  next
    case (Inr k)
    then show ?thesis using getModeFromString_Inr[OF ne, of k] no by blast
  qed
next
  show "getModeFromString ''0755'' = Inr 493" by (simp add: parse_defs)
next
  show "getModeFromString ''1000'' = Inl (ModeOutOfRange ''1000'')" by (simp add: parse_defs)
next
  show "getModeFromString ''abc'' = Inl (InvalidMode ''abc'' ErrSyntax)" by (simp add: parse_defs)
qed

theorem getModeFromString_spec_witness:
  "signedNumeral 8 ''+644'' = Some 420 \<and> getModeFromString ''+644'' = Inr 420 \<and>
   signedNumeral 8 ''778'' = None \<and>
   getModeFromString ''778'' \<in>
     {Inl (InvalidMode ''778'' ErrSyntax), Inl (InvalidMode ''778'' ErrRange),
      Inl (ModeOutOfRange ''778'')}"
  using getModeFromString_spec [of "''+644''" 420] getModeFromString_spec [of "''778''" 0]
  by (simp add: numeral_defs)

subsection \<open>The id parser\<close>

text \<open>
  C7. The id parser maps the empty string to 0. A non-empty string is accepted
  exactly when it denotes a decimal integer between 0 and 65535, and the result is
  that integer; every other non-empty string yields one of the three errors of the
  parser. "1000" gives 1000; "70000" and "-1" are out of range.
\<close>

theorem getIdFromString_spec:
  "getIdFromString [] = Inr 0 \<and>
   (s \<noteq> [] \<longrightarrow>
      (getIdFromString s = Inr m \<longleftrightarrow> signedNumeral 10 s = Some m \<and> 0 \<le> m \<and> m \<le> 65535)) \<and>
   (s \<noteq> [] \<longrightarrow> \<not> (\<exists>k. signedNumeral 10 s = Some k \<and> 0 \<le> k \<and> k \<le> 65535) \<longrightarrow>
      getIdFromString s \<in>
        {Inl (InvalidId s ErrSyntax), Inl (InvalidId s ErrRange), Inl (IdOutOfRange s)}) \<and>
   getIdFromString ''1000'' = Inr 1000 \<and>
   getIdFromString ''70000'' = Inl (IdOutOfRange ''70000'') \<and>
   getIdFromString ''-1'' = Inl (IdOutOfRange ''-1'')"
proof (intro conjI impI)
  show "getIdFromString [] = Inr 0" by (simp add: getIdFromString_def)
next
  assume "s \<noteq> []"
  then show "getIdFromString s = Inr m \<longleftrightarrow> signedNumeral 10 s = Some m \<and> 0 \<le> m \<and> m \<le> 65535"
    by (rule getIdFromString_Inr)
next
  assume ne: "s \<noteq> []" and no: "\<not> (\<exists>k. signedNumeral 10 s = Some k \<and> 0 \<le> k \<and> k \<le> 65535)"
  show "getIdFromString s \<in>
      {Inl (InvalidId s ErrSyntax), Inl (InvalidId s ErrRange), Inl (IdOutOfRange s)}"
  proof (cases "getIdFromString s")
    case (Inl e)
    then show ?thesis using getIdFromString_Inl[OF Inl] by auto
  next
    case (Inr k)
    then show ?thesis using getIdFromString_Inr[OF ne, of k] no by blast
  qed
next
  show "getIdFromString ''1000'' = Inr 1000" by (simp add: parse_defs)
next
  show "getIdFromString ''70000'' = Inl (IdOutOfRange ''70000'')" by (simp add: parse_defs)
next
  show "getIdFromString ''-1'' = Inl (IdOutOfRange ''-1'')" by (simp add: parse_defs)
qed

theorem getIdFromString_spec_witness:
  "signedNumeral 10 ''65535'' = Some 65535 \<and> getIdFromString ''65535'' = Inr 65535 \<and>
   signedNumeral 10 ''65536'' = Some 65536 \<and>
   getIdFromString ''65536'' \<in>
     {Inl (InvalidId ''65536'' ErrSyntax), Inl (InvalidId ''65536'' ErrRange),
      Inl (IdOutOfRange ''65536'')}"
  using getIdFromString_spec [of "''65535''" 65535] getIdFromString_spec [of "''65536''" 0]
  by (simp add: numeral_defs)

subsection \<open>Running the examples\<close>

lemmas path_defs = Join_def Clean_def cleanStep_def mountPath_def splitSlash_def

lemma exampleOptions_simps:
  "Selector (PVC (exampleOptions ps an)) = None"
  "Annotations (PVC (exampleOptions ps an)) = an"
  "Parameters (StorageClass (exampleOptions ps an)) = ps"
  "pvNameOf (exampleOptions ps an) = ''default-data-pvc-1''"
  "PVName (exampleOptions ps an) = ''pvc-1''"
  "ReclaimPolicy (StorageClass (exampleOptions ps an)) = ''Delete''"
  "MountOptions (StorageClass (exampleOptions ps an)) = []"
  "AccessModes (PVC (exampleOptions ps an)) = [''ReadWriteMany'']"
  "StorageRequest (PVC (exampleOptions ps an)) = 1"
  by (simp_all add: exampleOptions_def exampleClass_def pvNameOf_def)

lemma exampleProvisioner_simps:
  "path (exampleProvisioner ps) = ''/export''"
  "server (exampleProvisioner ps) = ''nfs.example.com''"
  "defaultMode (exampleProvisioner ps) = 511"
  "defaultUid (exampleProvisioner ps) = 1000"
  "defaultGid (exampleProvisioner ps) = 100"
  by (simp_all add: exampleProvisioner_def)

lemma example_default_paths:
  "provisionPaths (exampleProvisioner ps) (exampleOptions Map.empty an) =
     (''/persistentvolumes/default-data-pvc-1'', ''/export/default-data-pvc-1'')"
proof -
  have "Join mountPath ''default-data-pvc-1'' = ''/persistentvolumes/default-data-pvc-1''"
    by (simp add: path_defs)
  moreover have "Join ''/export'' ''default-data-pvc-1'' = ''/export/default-data-pvc-1''"
    by (simp add: path_defs)
  ultimately show ?thesis
    by (simp add: provisionPaths_def exampleOptions_simps exampleProvisioner_simps Let_def)
qed

lemma example_modes:
  "getModeFromString ''0700'' = Inr 448"
  "getModeFromString ''1000'' = Inl (ModeOutOfRange ''1000'')"
  by (simp_all add: parse_defs)

lemma example_ids:
  "getIdFromString ''70000'' = Inl (IdOutOfRange ''70000'')"
  "getIdFromString ''abc'' = Inl (InvalidId ''abc'' ErrSyntax)"
  "getIdFromString ''1000'' = Inr 1000"
  by (simp_all add: parse_defs)

lemma badIdAnnotations_simps:
  "lookup badIdAnnotations ''k8s-sigs.io/nfs-directory-mode'' = ''0700''"
  "lookup badIdAnnotations ''k8s-sigs.io/nfs-directory-uid'' = ''70000''"
  "lookup badIdAnnotations ''k8s-sigs.io/nfs-directory-gid'' = ''abc''"
  by (simp_all add: badIdAnnotations_def lookup_def)

lemma annotations_metadataOf: "annotations (metadataOf options) = Annotations (PVC options)"
  by (simp add: metadataOf_def)

lemma example_bad_ids_run:
  "Provision refOS (exampleProvisioner Map.empty) (exampleOptions Map.empty badIdAnnotations) [] =
   ((Some \<lparr>VolumeName = ''pvc-1'', VolumeAnnotations = Map.empty, StorageClassName = [],
           PersistentVolumeReclaimPolicy = ''Delete'', VolumeAccessModes = [''ReadWriteMany''],
           VolumeMountOptions = [], Capacity = 1,
           NFS = \<lparr>Server = ''nfs.example.com'', Path = ''/export/default-data-pvc-1'',
                  ReadOnly = False\<rparr>\<rparr>,
     ProvisioningFinished, None),
    [InfoVolumeOptions, InfoCreatingPath ''/persistentvolumes/default-data-pvc-1'',
     ErrorInvalidDirectoryUid ''70000'' (IdOutOfRange ''70000''),
     ErrorInvalidDirectoryGid ''abc'' (InvalidId ''abc'' ErrSyntax)],
    [(''/persistentvolumes/default-data-pvc-1'', 448, 1000, 100)])"
  unfolding Provision_def Let_def
  by (simp add: example_default_paths exampleOptions_simps exampleProvisioner_simps
      annotations_metadataOf annotationPrefix_def badIdAnnotations_simps example_modes
      example_ids requestedId_def requestedMode_def refOS_def fsExists_def)

lemma example_bad_mode_run:
  "Provision refOS (exampleProvisioner Map.empty)
     (exampleOptions Map.empty [''k8s-sigs.io/nfs-directory-mode'' \<mapsto> ''1000'']) [] =
   ((None, ProvisioningFinished, Some (InvalidDirectoryMode ''1000'' (ModeOutOfRange ''1000''))),
    [InfoVolumeOptions], [])"
  unfolding Provision_def Let_def
  by (simp add: example_default_paths exampleOptions_simps exampleProvisioner_simps
      annotations_metadataOf annotationPrefix_def lookup_def example_modes requestedMode_def)

subsection \<open>Provision: the selector\<close>

text \<open>
  C8. A claim with a selector is refused with "claim Selector is not supported",
  whatever the other inputs are and however the operating system behaves: nothing is
  logged and the state of the file system is the one before the call.
\<close>

theorem Provision_rejects_selector:
  "Selector (PVC options) \<noteq> None \<Longrightarrow>
     Provision os p options w = ((None, ProvisioningFinished, Some SelectorNotSupported), [], w)"
  by (simp add: Provision_def)

theorem Provision_rejects_selector_witness:
  "Selector (PVC (withSelector [(''tier'', ''gold'')]
      (exampleOptions Map.empty [''k8s-sigs.io/nfs-directory-mode'' \<mapsto> ''1000'']))) \<noteq> None \<and>
   Provision refOS (exampleProvisioner Map.empty)
     (withSelector [(''tier'', ''gold'')]
        (exampleOptions Map.empty [''k8s-sigs.io/nfs-directory-mode'' \<mapsto> ''1000''])) [] =
     ((None, ProvisioningFinished, Some SelectorNotSupported), [], [])"
proof -
  have sel: "Selector (PVC (withSelector [(''tier'', ''gold'')]
      (exampleOptions Map.empty [''k8s-sigs.io/nfs-directory-mode'' \<mapsto> ''1000'']))) \<noteq> None"
    by (simp add: withSelector_def)
  show ?thesis
    using sel Provision_rejects_selector [OF sel, of refOS "exampleProvisioner Map.empty" "[]"]
    by simp
qed

subsection \<open>Provision: the mode is fatal, the ids are not\<close>

lemma annotation_reads:
  "lookup (annotations (metadataOf options)) (annotationPrefix @ ''/nfs-directory-mode'') =
     modeAnnotation options"
  "lookup (annotations (metadataOf options)) (annotationPrefix @ ''/nfs-directory-uid'') =
     uidAnnotation options"
  "lookup (annotations (metadataOf options)) (annotationPrefix @ ''/nfs-directory-gid'') =
     gidAnnotation options"
  by (simp_all add: annotations_metadataOf annotationPrefix_def modeAnnotation_def
      uidAnnotation_def gidAnnotation_def)

lemma Provision_bad_mode:
  assumes "Selector (PVC options) = None"
    and "modeAnnotation options \<noteq> []"
    and "getModeFromString (modeAnnotation options) = Inl err"
  shows "Provision os p options w =
     ((None, ProvisioningFinished, Some (InvalidDirectoryMode (modeAnnotation options) err)),
      [InfoVolumeOptions], w)"
  using assms
  unfolding Provision_def Let_def annotation_reads
  by (simp add: requestedMode_def split: prod.splits)

lemma Provision_unfold_after_chmod:
  assumes "Selector (PVC options) = None"
    and "provisionPaths p options = (fullPath, spath)"
    and "requestedMode (defaultMode p) (modeAnnotation options) = Inr mode"
    and "MkdirAll os fullPath mode w = (None, w1)"
    and "Chmod os fullPath mode w1 = (None, w2)"
    and "requestedId (defaultUid p) (uidAnnotation options) = (uid, uidErr)"
    and "requestedId (defaultGid p) (gidAnnotation options) = (gid, gidErr)"
  shows "Provision os p options w =
     (let log2 = [InfoVolumeOptions, InfoCreatingPath fullPath]
           @ (case uidErr of None \<Rightarrow> []
              | Some e \<Rightarrow> [ErrorInvalidDirectoryUid (uidAnnotation options) e])
           @ (case gidErr of None \<Rightarrow> []
              | Some e \<Rightarrow> [ErrorInvalidDirectoryGid (gidAnnotation options) e])
      in case Chown os fullPath uid gid w2 of
           (Some err, w3) \<Rightarrow> ((None, NoState, Some (OsError err)), log2, w3)
         | (None, w3) \<Rightarrow>
             ((Some \<lparr>VolumeName = PVName options, VolumeAnnotations = Map.empty,
                     StorageClassName = [],
                     PersistentVolumeReclaimPolicy = ReclaimPolicy (StorageClass options),
                     VolumeAccessModes = AccessModes (PVC options),
                     VolumeMountOptions = MountOptions (StorageClass options),
                     Capacity = StorageRequest (PVC options),
                     NFS = \<lparr>Server = server p, Path = spath, ReadOnly = False\<rparr>\<rparr>,
               ProvisioningFinished, None), log2, w3))"
  unfolding Provision_def Let_def annotation_reads
  by (simp add: assms split: prod.splits option.splits)

lemma Provision_after_chmod:
  assumes "Selector (PVC options) = None"
    and "provisionPaths p options = (fullPath, spath)"
    and "requestedMode (defaultMode p) (modeAnnotation options) = Inr mode"
    and "MkdirAll os fullPath mode w = (None, w1)"
    and "Chmod os fullPath mode w1 = (None, w2)"
    and "requestedId (defaultUid p) (uidAnnotation options) = (uid, uidErr)"
    and "requestedId (defaultGid p) (gidAnnotation options) = (gid, gidErr)"
    and "Provision os p options w = ((pv, st, err), lg, w')"
  shows "err = map_option OsError (fst (Chown os fullPath uid gid w2))"
    and "w' = snd (Chown os fullPath uid gid w2)"
    and "lg = [InfoVolumeOptions, InfoCreatingPath fullPath]
           @ (case uidErr of None \<Rightarrow> []
              | Some e \<Rightarrow> [ErrorInvalidDirectoryUid (uidAnnotation options) e])
           @ (case gidErr of None \<Rightarrow> []
              | Some e \<Rightarrow> [ErrorInvalidDirectoryGid (gidAnnotation options) e])"
    and "err = None \<longrightarrow> (\<exists>v. pv = Some v \<and> Path (NFS v) = spath)"
proof -
  obtain oe w3 where c: "Chown os fullPath uid gid w2 = (oe, w3)"
    by (cases "Chown os fullPath uid gid w2")
  note r = assms(8)[unfolded Provision_unfold_after_chmod[OF assms(1-7)] Let_def c]
  show "err = map_option OsError (fst (Chown os fullPath uid gid w2))"
    using r unfolding c by (cases oe) simp_all
  show "w' = snd (Chown os fullPath uid gid w2)"
    using r unfolding c by (cases oe) simp_all
  show "lg = [InfoVolumeOptions, InfoCreatingPath fullPath]
           @ (case uidErr of None \<Rightarrow> []
              | Some e \<Rightarrow> [ErrorInvalidDirectoryUid (uidAnnotation options) e])
           @ (case gidErr of None \<Rightarrow> []
              | Some e \<Rightarrow> [ErrorInvalidDirectoryGid (gidAnnotation options) e])"
    using r by (cases oe) simp_all
  show "err = None \<longrightarrow> (\<exists>v. pv = Some v \<and> Path (NFS v) = spath)"
    using r by (cases oe) auto
qed

lemma getModeFromString_refused:
  assumes "a \<noteq> []" and "\<not> (\<exists>k. signedNumeral 8 a = Some k \<and> 0 \<le> k \<and> k \<le> 511)"
  shows "\<exists>e. getModeFromString a = Inl e"
  using assms getModeFromString_Inr[OF assms(1)] by (cases "getModeFromString a") auto

lemma getIdFromString_refused:
  assumes "a \<noteq> []" and "\<not> (\<exists>k. signedNumeral 10 a = Some k \<and> 0 \<le> k \<and> k \<le> 65535)"
  shows "\<exists>e. getIdFromString a = Inl e"
  using assms getIdFromString_Inr[OF assms(1)] by (cases "getIdFromString a") auto

lemma requestedId_refused:
  assumes "a \<noteq> []" and "\<not> (\<exists>k. signedNumeral 10 a = Some k \<and> 0 \<le> k \<and> k \<le> 65535)"
  shows "\<exists>e. requestedId d a = (d, Some e)"
  using getIdFromString_refused[OF assms] assms(1) by (auto simp: requestedId_def)

text \<open>
  C2. For a claim without selector: (1) when the directory-mode annotation is
  present and is not a base-8 numeral between 0 and 0777, \<open>Provision\<close> fails with
  "invalid directoryMode" and the state of the file system is the one before the
  call, however the operating system behaves; (2) when the mode is accepted and the
  directory has been created and its mode set, the error that \<open>Provision\<close> returns is
  the error of \<open>os.Chown\<close> and nothing else, the file system is the one \<open>os.Chown\<close>
  leaves, and a uid (gid) annotation that is present and is not a decimal numeral
  between 0 and 65535 makes \<open>os.Chown\<close> run with the default uid (gid) of the
  provisioner and leaves an "invalid directoryUid" ("invalid directoryGid") entry in
  the log.
\<close>

theorem Provision_parse_failures:
  assumes "Selector (PVC options) = None"
  shows
    "(modeAnnotation options \<noteq> [] \<and>
      \<not> (\<exists>k. signedNumeral 8 (modeAnnotation options) = Some k \<and> 0 \<le> k \<and> k \<le> 511) \<longrightarrow>
        (\<exists>e. Provision os p options w =
           ((None, ProvisioningFinished, Some (InvalidDirectoryMode (modeAnnotation options) e)),
            [InfoVolumeOptions], w))) \<and>
     (provisionPaths p options = (fullPath, spath) \<and>
      requestedMode (defaultMode p) (modeAnnotation options) = Inr mode \<and>
      MkdirAll os fullPath mode w = (None, w1) \<and> Chmod os fullPath mode w1 = (None, w2) \<and>
      Provision os p options w = ((pv, st, err), lg, w') \<longrightarrow>
        (\<exists>uid gid.
           err = map_option OsError (fst (Chown os fullPath uid gid w2)) \<and>
           w' = snd (Chown os fullPath uid gid w2) \<and>
           (uidAnnotation options \<noteq> [] \<and>
            \<not> (\<exists>k. signedNumeral 10 (uidAnnotation options) = Some k \<and> 0 \<le> k \<and> k \<le> 65535) \<longrightarrow>
              uid = defaultUid p \<and>
              (\<exists>e. ErrorInvalidDirectoryUid (uidAnnotation options) e \<in> set lg)) \<and>
           (gidAnnotation options \<noteq> [] \<and>
            \<not> (\<exists>k. signedNumeral 10 (gidAnnotation options) = Some k \<and> 0 \<le> k \<and> k \<le> 65535) \<longrightarrow>
              gid = defaultGid p \<and>
              (\<exists>e. ErrorInvalidDirectoryGid (gidAnnotation options) e \<in> set lg))))"
proof (intro conjI impI)
  assume a: "modeAnnotation options \<noteq> [] \<and>
      \<not> (\<exists>k. signedNumeral 8 (modeAnnotation options) = Some k \<and> 0 \<le> k \<and> k \<le> 511)"
  then obtain e where "getModeFromString (modeAnnotation options) = Inl e"
    using getModeFromString_refused by blast
  then show "\<exists>e. Provision os p options w =
           ((None, ProvisioningFinished, Some (InvalidDirectoryMode (modeAnnotation options) e)),
            [InfoVolumeOptions], w)"
    using Provision_bad_mode[OF assms, of e os p w] a by blast
next
  assume a: "provisionPaths p options = (fullPath, spath) \<and>
      requestedMode (defaultMode p) (modeAnnotation options) = Inr mode \<and>
      MkdirAll os fullPath mode w = (None, w1) \<and> Chmod os fullPath mode w1 = (None, w2) \<and>
      Provision os p options w = ((pv, st, err), lg, w')"
  obtain uid uidErr where u: "requestedId (defaultUid p) (uidAnnotation options) = (uid, uidErr)"
    by (cases "requestedId (defaultUid p) (uidAnnotation options)")
  obtain gid gidErr where g: "requestedId (defaultGid p) (gidAnnotation options) = (gid, gidErr)"
    by (cases "requestedId (defaultGid p) (gidAnnotation options)")
  from a have a1: "provisionPaths p options = (fullPath, spath)"
    and a2: "requestedMode (defaultMode p) (modeAnnotation options) = Inr mode"
    and a3: "MkdirAll os fullPath mode w = (None, w1)"
    and a4: "Chmod os fullPath mode w1 = (None, w2)"
    and a5: "Provision os p options w = ((pv, st, err), lg, w')"
    by blast+
  note r = Provision_after_chmod[OF assms a1 a2 a3 a4 u g a5]
  have e: "err = map_option OsError (fst (Chown os fullPath uid gid w2))"
    and w: "w' = snd (Chown os fullPath uid gid w2)"
    and l: "lg = [InfoVolumeOptions, InfoCreatingPath fullPath]
           @ (case uidErr of None \<Rightarrow> []
              | Some e \<Rightarrow> [ErrorInvalidDirectoryUid (uidAnnotation options) e])
           @ (case gidErr of None \<Rightarrow> []
              | Some e \<Rightarrow> [ErrorInvalidDirectoryGid (gidAnnotation options) e])"
    using r by blast+
  have uu: "uid = defaultUid p \<and> (\<exists>e. ErrorInvalidDirectoryUid (uidAnnotation options) e \<in> set lg)"
    if "uidAnnotation options \<noteq> [] \<and>
        \<not> (\<exists>k. signedNumeral 10 (uidAnnotation options) = Some k \<and> 0 \<le> k \<and> k \<le> 65535)"
    using requestedId_refused[of "uidAnnotation options" "defaultUid p"] that u l by auto
  have gg: "gid = defaultGid p \<and> (\<exists>e. ErrorInvalidDirectoryGid (gidAnnotation options) e \<in> set lg)"
    if "gidAnnotation options \<noteq> [] \<and>
        \<not> (\<exists>k. signedNumeral 10 (gidAnnotation options) = Some k \<and> 0 \<le> k \<and> k \<le> 65535)"
    using requestedId_refused[of "gidAnnotation options" "defaultGid p"] that g l by auto
  show "\<exists>uid gid.
           err = map_option OsError (fst (Chown os fullPath uid gid w2)) \<and>
           w' = snd (Chown os fullPath uid gid w2) \<and>
           (uidAnnotation options \<noteq> [] \<and>
            \<not> (\<exists>k. signedNumeral 10 (uidAnnotation options) = Some k \<and> 0 \<le> k \<and> k \<le> 65535) \<longrightarrow>
              uid = defaultUid p \<and>
              (\<exists>e. ErrorInvalidDirectoryUid (uidAnnotation options) e \<in> set lg)) \<and>
           (gidAnnotation options \<noteq> [] \<and>
            \<not> (\<exists>k. signedNumeral 10 (gidAnnotation options) = Some k \<and> 0 \<le> k \<and> k \<le> 65535) \<longrightarrow>
              gid = defaultGid p \<and>
              (\<exists>e. ErrorInvalidDirectoryGid (gidAnnotation options) e \<in> set lg))"
    using e w uu gg by blast
qed

theorem Provision_parse_failures_witness:
  "signedNumeral 8 ''1000'' = Some 512 \<and>
   Provision refOS (exampleProvisioner Map.empty)
     (exampleOptions Map.empty [''k8s-sigs.io/nfs-directory-mode'' \<mapsto> ''1000'']) [] =
   ((None, ProvisioningFinished, Some (InvalidDirectoryMode ''1000'' (ModeOutOfRange ''1000''))),
    [InfoVolumeOptions], []) \<and>
   signedNumeral 10 ''70000'' = Some 70000 \<and> signedNumeral 10 ''abc'' = None \<and>
   MkdirAll refOS ''/persistentvolumes/default-data-pvc-1'' 448 [] =
     (None, [(''/persistentvolumes/default-data-pvc-1'', 448, 0, 0)]) \<and>
   Chmod refOS ''/persistentvolumes/default-data-pvc-1'' 448
       [(''/persistentvolumes/default-data-pvc-1'', 448, 0, 0)] =
     (None, [(''/persistentvolumes/default-data-pvc-1'', 448, 0, 0)]) \<and>
   Chown refOS ''/persistentvolumes/default-data-pvc-1'' 1000 100
       [(''/persistentvolumes/default-data-pvc-1'', 448, 0, 0)] =
     (None, [(''/persistentvolumes/default-data-pvc-1'', 448, 1000, 100)]) \<and>
   fst (snd (Provision refOS (exampleProvisioner Map.empty)
     (exampleOptions Map.empty badIdAnnotations) [])) =
     [InfoVolumeOptions, InfoCreatingPath ''/persistentvolumes/default-data-pvc-1'',
      ErrorInvalidDirectoryUid ''70000'' (IdOutOfRange ''70000''),
      ErrorInvalidDirectoryGid ''abc'' (InvalidId ''abc'' ErrSyntax)] \<and>
   snd (snd (fst (Provision refOS (exampleProvisioner Map.empty)
     (exampleOptions Map.empty badIdAnnotations) []))) = None \<and>
   snd (snd (Provision refOS (exampleProvisioner Map.empty)
     (exampleOptions Map.empty badIdAnnotations) [])) =
     [(''/persistentvolumes/default-data-pvc-1'', 448, 1000, 100)]"
proof -
  have sel: "Selector (PVC (exampleOptions Map.empty an)) = None" for an
    by (simp add: exampleOptions_simps)
  have n1: "signedNumeral 8 ''1000'' = Some 512"
    and n2: "signedNumeral 10 ''70000'' = Some 70000"
    and n3: "signedNumeral 10 ''abc'' = None"
    by (simp_all add: numeral_defs)
  have m: "modeAnnotation (exampleOptions Map.empty [''k8s-sigs.io/nfs-directory-mode'' \<mapsto> ''1000'']) = ''1000''"
    by (simp add: modeAnnotation_def exampleOptions_simps lookup_def)
  have "\<exists>e. Provision refOS (exampleProvisioner Map.empty)
     (exampleOptions Map.empty [''k8s-sigs.io/nfs-directory-mode'' \<mapsto> ''1000'']) [] =
       ((None, ProvisioningFinished, Some (InvalidDirectoryMode ''1000'' e)), [InfoVolumeOptions], [])"
    using Provision_parse_failures [OF sel [of "[''k8s-sigs.io/nfs-directory-mode'' \<mapsto> ''1000'']"],
        where os = refOS and p = "exampleProvisioner Map.empty" and w = "[]"]
    unfolding m n1 by simp
  moreover
  have os: "MkdirAll refOS ''/persistentvolumes/default-data-pvc-1'' 448 [] =
        (None, [(''/persistentvolumes/default-data-pvc-1'', 448, 0, 0)])"
      "Chmod refOS ''/persistentvolumes/default-data-pvc-1'' 448
          [(''/persistentvolumes/default-data-pvc-1'', 448, 0, 0)] =
        (None, [(''/persistentvolumes/default-data-pvc-1'', 448, 0, 0)])"
      "Chown refOS ''/persistentvolumes/default-data-pvc-1'' 1000 100
          [(''/persistentvolumes/default-data-pvc-1'', 448, 0, 0)] =
        (None, [(''/persistentvolumes/default-data-pvc-1'', 448, 1000, 100)])"
    by (simp_all add: refOS_def fsExists_def)
  have an: "modeAnnotation (exampleOptions Map.empty badIdAnnotations) = ''0700''"
      "uidAnnotation (exampleOptions Map.empty badIdAnnotations) = ''70000''"
      "gidAnnotation (exampleOptions Map.empty badIdAnnotations) = ''abc''"
    by (simp_all add: modeAnnotation_def uidAnnotation_def gidAnnotation_def
        exampleOptions_simps badIdAnnotations_simps)
  have rm: "requestedMode (defaultMode (exampleProvisioner Map.empty)) ''0700'' = Inr 448"
    by (simp add: requestedMode_def example_modes)
  have "\<exists>uid gid. uid = defaultUid (exampleProvisioner Map.empty) \<and>
      gid = defaultGid (exampleProvisioner Map.empty) \<and>
      (None :: error option) = map_option OsError
         (fst (Chown refOS ''/persistentvolumes/default-data-pvc-1'' uid gid
            [(''/persistentvolumes/default-data-pvc-1'', 448, 0, 0)]))"
    using Provision_parse_failures [OF sel [of badIdAnnotations],
        where p = "exampleProvisioner Map.empty" and os = refOS and w = "[]"
          and fullPath = "''/persistentvolumes/default-data-pvc-1''"
          and spath = "''/export/default-data-pvc-1''" and mode = 448
          and ?w1.0 = "[(''/persistentvolumes/default-data-pvc-1'', 448, 0, 0)]"
          and ?w2.0 = "[(''/persistentvolumes/default-data-pvc-1'', 448, 0, 0)]"]
    unfolding an example_default_paths rm os(1,2) example_bad_ids_run n2 n3
    by simp
  ultimately show ?thesis
    by (simp add: n1 n2 n3 example_bad_mode_run example_bad_ids_run os)
qed

subsection \<open>Paths that filepath.Join leaves as they are\<close>

lemma splitFrom_not_Nil: "splitFrom cur s \<noteq> []"
  by (induction s arbitrary: cur) auto

lemma joinSlash_Cons: "es \<noteq> [] \<Longrightarrow> joinSlash (e # es) = e @ CHR ''/'' # joinSlash es"
  by (cases es) auto

lemma joinSlash_splitFrom: "joinSlash (splitFrom cur s) = cur @ s"
  by (induction s arbitrary: cur) (auto simp: joinSlash_Cons splitFrom_not_Nil)

lemma splitFrom_append_slash:
  "splitFrom cur (a @ CHR ''/'' # b) = splitFrom cur a @ splitFrom [] b"
  by (induction a arbitrary: cur) auto

lemma splitFrom_noslash: "CHR ''/'' \<notin> set b \<Longrightarrow> splitFrom cur b = [cur @ b]"
  by (induction b arbitrary: cur) auto

lemma cleanStep_plain: "plain e \<Longrightarrow> cleanStep rooted out e = out @ [e]"
  by (simp add: cleanStep_def plain_def)

lemma foldl_cleanStep_plain:
  "list_all plain es \<Longrightarrow> foldl (cleanStep rooted) out es = out @ es"
  by (induction es arbitrary: out) (auto simp: cleanStep_plain)

lemma joinSlash_append:
  "xs \<noteq> [] \<Longrightarrow> ys \<noteq> [] \<Longrightarrow> joinSlash (xs @ ys) = joinSlash xs @ CHR ''/'' # joinSlash ys"
proof (induction xs)
  case Nil
  then show ?case by simp
next
  case (Cons x xs)
  show ?case
  proof (cases "xs = []")
    case True
    then show ?thesis using Cons.prems by (simp add: joinSlash_Cons)
  next
    case False
    then show ?thesis using Cons by (simp add: joinSlash_Cons)
  qed
qed

lemma Join_clean:
  assumes "cleanRooted root" and "cleanRelative sfx"
  shows "Join root sfx = root @ ''/'' @ sfx"
proof -
  obtain r where root: "root = CHR ''/'' # r" and r: "list_all plain (splitFrom [] r)"
    using assms(1) by (cases root) (auto simp: cleanRooted_def cleanRelative_def splitSlash_def)
  have s: "list_all plain (splitFrom [] sfx)"
    using assms(2) by (simp add: cleanRelative_def splitSlash_def)
  have split: "splitSlash (root @ ''/'' @ sfx) = [] # splitFrom [] r @ splitFrom [] sfx"
    by (simp add: root splitSlash_def splitFrom_append_slash)
  have "foldl (cleanStep True) [] (splitSlash (root @ ''/'' @ sfx)) =
      splitFrom [] r @ splitFrom [] sfx"
    unfolding split using r s
    by (simp add: cleanStep_def foldl_cleanStep_plain)
  moreover have "joinSlash (splitFrom [] r @ splitFrom [] sfx) = r @ CHR ''/'' # sfx"
    by (simp add: joinSlash_append splitFrom_not_Nil joinSlash_splitFrom)
  ultimately have "Clean (root @ ''/'' @ sfx) = CHR ''/'' # r @ CHR ''/'' # sfx"
    by (simp add: Clean_def root)
  then show ?thesis by (simp add: Join_def root)
qed

lemma cleanRooted_mountPath: "cleanRooted mountPath"
  by (simp add: cleanRooted_def cleanRelative_def mountPath_def splitSlash_def plain_def)

lemma cleanRelative_noslash:
  "CHR ''/'' \<notin> set s \<Longrightarrow> s \<noteq> [] \<Longrightarrow> s \<noteq> ''.'' \<Longrightarrow> s \<noteq> ''..'' \<Longrightarrow> cleanRelative s"
  by (simp add: cleanRelative_def splitSlash_def splitFrom_noslash plain_def)

lemma Base_noslash: "Base s \<noteq> ''/'' \<Longrightarrow> CHR ''/'' \<notin> set (Base s)"
  by (auto simp: Base_def Let_def split: if_splits dest: set_takeWhileD)

lemma archivePath_plain:
  assumes "Base (Path (NFS volume)) \<noteq> ''/''"
  shows "archivePath volume = mountPath @ ''/archived-'' @ Base (Path (NFS volume))"
proof -
  have "cleanRelative (''archived-'' @ Base (Path (NFS volume)))"
    using Base_noslash[OF assms] by (intro cleanRelative_noslash) auto
  then show ?thesis
    unfolding archivePath_def by (simp add: Join_clean cleanRooted_mountPath)
qed

subsection \<open>Delete: the cases\<close>

lemma Replace1_scan_prefix: "Replace1_scan old new (old @ rest) = new @ rest"
proof (cases "old @ rest")
  case Nil
  then show ?thesis by simp
next
  case (Cons c cs)
  have "prefix old (old @ rest)" by simp
  moreover have "drop (length old) (old @ rest) = rest" by simp
  ultimately show ?thesis unfolding Cons by simp
qed

lemma Replace1_prefix: "Replace1 (old @ rest) old new = new @ rest"
  by (simp add: Replace1_def Replace1_scan_prefix)

lemma oldPath_prefix:
  "Path (NFS volume) = path p @ rest \<Longrightarrow> oldPath p volume = mountPath @ rest"
  by (simp add: oldPath_def Replace1_prefix)

lemma Delete_not_exist:
  "IsNotExist (Stat os (oldPath p volume) w) \<Longrightarrow>
     Delete os p volume w = (None, [WarningPathDoesNotExist (oldPath p volume)], w)"
  by (simp add: Delete_def)

lemma oldPath_client: "oldPath (p\<lparr>client := c\<rparr>) volume = oldPath p volume"
  by (simp add: oldPath_def)

lemma Delete_dispatch:
  assumes "\<not> IsNotExist (Stat os (oldPath p volume) w)"
    and "getClassForVolume p volume = Inr storageClass"
  shows "Delete os p volume w =
     (if lookup (Parameters storageClass) ''onDelete'' = ''delete''
      then returned (RemoveAll os (oldPath p volume) w) []
      else if lookup (Parameters storageClass) ''onDelete'' = ''retain'' then (None, [], w)
      else case Parameters storageClass ''archiveOnDelete'' of
             None \<Rightarrow> returned (Rename os (oldPath p volume) (archivePath volume) w)
                       [InfoArchivingPath (oldPath p volume) (archivePath volume)]
           | Some v \<Rightarrow>
               (case ParseBool v of
                  Inl e \<Rightarrow> (Some (InvalidBool v e), [], w)
                | Inr b \<Rightarrow>
                    if b then returned (Rename os (oldPath p volume) (archivePath volume) w)
                               [InfoArchivingPath (oldPath p volume) (archivePath volume)]
                    else returned (RemoveAll os (oldPath p volume) w) []))"
  using assms by (simp add: Delete_def Let_def split: option.splits sum.splits)

lemma exampleVolume_simps:
  "Path (NFS (exampleVolume sp)) = sp"
  "GetPersistentVolumeClass (exampleVolume sp) = ''nfs-client''"
  by (simp_all add: exampleVolume_def GetPersistentVolumeClass_def)

lemma example_getClass:
  "getClassForVolume (exampleProvisioner ps) (exampleVolume sp) = Inr (exampleClass ps)"
  by (simp add: getClassForVolume_def exampleVolume_simps exampleProvisioner_def)

lemma example_oldPath:
  "oldPath (exampleProvisioner ps) (exampleVolume ''/export/default-data-pvc-1'') =
     ''/persistentvolumes/default-data-pvc-1''"
  using oldPath_prefix [of "exampleVolume ''/export/default-data-pvc-1''"
      "exampleProvisioner ps" "''/default-data-pvc-1''"]
  by (simp add: exampleVolume_simps exampleProvisioner_simps mountPath_def)

lemma example_archivePath:
  "archivePath (exampleVolume ''/export/default-data-pvc-1'') =
     ''/persistentvolumes/archived-default-data-pvc-1''"
proof -
  have b: "Base ''/export/default-data-pvc-1'' = ''default-data-pvc-1''"
    by (simp add: Base_def)
  show ?thesis
    using archivePath_plain [of "exampleVolume ''/export/default-data-pvc-1''"]
    by (simp add: exampleVolume_simps b mountPath_def)
qed

lemmas refOS_defs = refOS_def fsExists_def under_def returned_def IsNotExist_def

lemma example_delete_runs:
  "Delete refOS (exampleProvisioner [''onDelete'' \<mapsto> ''delete'', ''archiveOnDelete'' \<mapsto> ''true''])
     (exampleVolume ''/export/default-data-pvc-1'') exampleTree = (None, [], [])"
  "Delete refOS (exampleProvisioner [''onDelete'' \<mapsto> ''retain'', ''archiveOnDelete'' \<mapsto> ''false''])
     (exampleVolume ''/export/default-data-pvc-1'') exampleTree = (None, [], exampleTree)"
  "Delete refOS (exampleProvisioner [''archiveOnDelete'' \<mapsto> ''false''])
     (exampleVolume ''/export/default-data-pvc-1'') exampleTree = (None, [], [])"
  "Delete refOS (exampleProvisioner Map.empty)
     (exampleVolume ''/export/default-data-pvc-1'') exampleTree =
     (None,
      [InfoArchivingPath ''/persistentvolumes/default-data-pvc-1''
         ''/persistentvolumes/archived-default-data-pvc-1''],
      [(''/persistentvolumes/archived-default-data-pvc-1'', 511, 1000, 100),
       (''/persistentvolumes/archived-default-data-pvc-1/a'', 493, 1000, 100)])"
  "Delete refOS (exampleProvisioner [''archiveOnDelete'' \<mapsto> ''yes''])
     (exampleVolume ''/export/default-data-pvc-1'') exampleTree =
     (Some (InvalidBool ''yes'' ErrSyntax), [], exampleTree)"
  "Delete refOS (exampleProvisioner ps) (exampleVolume ''/export/default-data-pvc-1'') [] =
     (None, [WarningPathDoesNotExist ''/persistentvolumes/default-data-pvc-1''], [])"
  unfolding Delete_def Let_def example_oldPath example_archivePath example_getClass
  by (simp_all add: exampleClass_def lookup_def ParseBool_def refOS_defs exampleTree_def)

subsection \<open>Delete: the local path\<close>

text \<open>
  \<^verbatim>\<open>strings.Replace(s, old, new, 1)\<close> replaces the first occurrence of \<open>old\<close>, at the
  smallest index where \<open>old\<close> is a prefix of the rest of \<open>s\<close>, and returns \<open>s\<close> when
  there is none.
\<close>

lemma Replace1_scan_first:
  "prefix old (drop i s) \<Longrightarrow> \<forall>j<i. \<not> prefix old (drop j s) \<Longrightarrow>
     Replace1_scan old new s = take i s @ new @ drop (i + length old) s"
proof (induction s arbitrary: i)
  case Nil
  then show ?case by (cases i) auto
next
  case (Cons c cs)
  show ?case
  proof (cases i)
    case 0
    then show ?thesis using Cons.prems(1) by simp
  next
    case (Suc k)
    have n: "\<not> prefix old (c # cs)" using Cons.prems(2) Suc by force
    have "prefix old (drop k cs)" using Cons.prems(1) Suc by simp
    moreover have "\<forall>j<k. \<not> prefix old (drop j cs)"
    proof (intro allI impI)
      fix j assume "j < k"
      then have "\<not> prefix old (drop (Suc j) (c # cs))" using Cons.prems(2) Suc by blast
      then show "\<not> prefix old (drop j cs)" by simp
    qed
    ultimately have "Replace1_scan old new cs = take k cs @ new @ drop (k + length old) cs"
      by (rule Cons.IH)
    then show ?thesis using n Suc by simp
  qed
qed

lemma Replace1_scan_absent:
  "\<forall>j\<le>length s. \<not> prefix old (drop j s) \<Longrightarrow> Replace1_scan old new s = s"
proof (induction s)
  case Nil
  then show ?case by auto
next
  case (Cons c cs)
  have n: "\<not> prefix old (c # cs)" using Cons.prems by force
  have "\<forall>j\<le>length cs. \<not> prefix old (drop j cs)"
  proof (intro allI impI)
    fix j assume "j \<le> length cs"
    then have "\<not> prefix old (drop (Suc j) (c # cs))" using Cons.prems by auto
    then show "\<not> prefix old (drop j cs)" by simp
  qed
  then have "Replace1_scan old new cs = cs" by (rule Cons.IH)
  then show ?case using n by simp
qed

lemma occurrence_split:
  assumes "prefix old (drop i s)"
  shows "s = take i s @ old @ drop (i + length old) s"
proof -
  obtain r where r: "drop i s = old @ r" using assms by (auto simp: prefix_def)
  then have "drop (length old) (drop i s) = r" by simp
  then have "drop (i + length old) s = r" by (simp add: add.commute)
  then show ?thesis using r by (metis append_take_drop_id)
qed

lemma Replace1_first:
  assumes "prefix old (drop i s)" and "\<forall>j<i. \<not> prefix old (drop j s)"
  shows "Replace1 s old new = take i s @ new @ drop (i + length old) s"
proof (cases "old = new")
  case True
  then show ?thesis using occurrence_split[OF assms(1)] by (simp add: Replace1_def)
next
  case False
  then show ?thesis using Replace1_scan_first[OF assms] by (simp add: Replace1_def)
qed

lemma Replace1_absent:
  "\<forall>j\<le>length s. \<not> prefix old (drop j s) \<Longrightarrow> Replace1 s old new = s"
  by (simp add: Replace1_def Replace1_scan_absent)

text \<open>
  C9, as stated, says that the export base path is replaced as a prefix of the server
  path, for every volume. Line 192 is \<^verbatim>\<open>strings.Replace(path, p.path, mountPath, 1)\<close>,
  which replaces the first occurrence wherever it is: for the server path
  \<open>/data/export/x\<close> and the export base path \<open>/export\<close>, which is not a prefix of it, the
  local path is \<open>/data/persistentvolumes/x\<close>, which does not start with the mount root.
\<close>

theorem Delete_local_path_counterexample:
  "Path (NFS (exampleVolume ''/data/export/x'')) = ''/data/export/x'' \<and>
   path (exampleProvisioner Map.empty) = ''/export'' \<and>
   \<not> prefix (path (exampleProvisioner Map.empty)) (Path (NFS (exampleVolume ''/data/export/x''))) \<and>
   oldPath (exampleProvisioner Map.empty) (exampleVolume ''/data/export/x'') =
     ''/data/persistentvolumes/x'' \<and>
   \<not> prefix mountPath (oldPath (exampleProvisioner Map.empty) (exampleVolume ''/data/export/x''))"
  by (simp add: oldPath_def Replace1_def exampleVolume_simps exampleProvisioner_simps mountPath_def)

text \<open>
  C9, amended. The local path is the server path with the first occurrence of the
  export base path replaced by the mount root, and the rest of the path unchanged; a
  server path that does not contain the export base path is its own local path. When
  the server path starts with the export base path, the local path is the mount root
  followed by the rest of the server path, and that is the path \<open>Delete\<close> looks for
  first.
\<close>

theorem Delete_local_path:
  "(prefix (path p) (drop i (Path (NFS volume))) \<and>
    (\<forall>j<i. \<not> prefix (path p) (drop j (Path (NFS volume)))) \<longrightarrow>
      oldPath p volume =
        take i (Path (NFS volume)) @ mountPath @ drop (i + length (path p)) (Path (NFS volume))) \<and>
   ((\<forall>j\<le>length (Path (NFS volume)). \<not> prefix (path p) (drop j (Path (NFS volume)))) \<longrightarrow>
      oldPath p volume = Path (NFS volume)) \<and>
   (Path (NFS volume) = path p @ rest \<longrightarrow>
      oldPath p volume = mountPath @ rest \<and>
      (IsNotExist (Stat os (mountPath @ rest) w) \<longrightarrow>
         Delete os p volume w = (None, [WarningPathDoesNotExist (mountPath @ rest)], w)))"
proof (intro conjI impI)
  assume "prefix (path p) (drop i (Path (NFS volume))) \<and>
    (\<forall>j<i. \<not> prefix (path p) (drop j (Path (NFS volume))))"
  then show "oldPath p volume =
        take i (Path (NFS volume)) @ mountPath @ drop (i + length (path p)) (Path (NFS volume))"
    unfolding oldPath_def by (intro Replace1_first) auto
next
  assume "\<forall>j\<le>length (Path (NFS volume)). \<not> prefix (path p) (drop j (Path (NFS volume)))"
  then show "oldPath p volume = Path (NFS volume)"
    unfolding oldPath_def by (rule Replace1_absent)
next
  assume a: "Path (NFS volume) = path p @ rest"
  show "oldPath p volume = mountPath @ rest" using oldPath_prefix[OF a] .
  assume "IsNotExist (Stat os (mountPath @ rest) w)"
  then show "Delete os p volume w = (None, [WarningPathDoesNotExist (mountPath @ rest)], w)"
    using Delete_not_exist [of os p volume w] oldPath_prefix [OF a] by simp
qed

theorem Delete_local_path_witness:
  "oldPath (exampleProvisioner Map.empty) (exampleVolume ''/mnt/export/export/a'') =
     ''/mnt/persistentvolumes/export/a'' \<and>
   oldPath (exampleProvisioner Map.empty) (exampleVolume ''/x'') = ''/x'' \<and>
   Path (NFS (exampleVolume ''/export/default-data-pvc-1'')) =
     path (exampleProvisioner Map.empty) @ ''/default-data-pvc-1'' \<and>
   oldPath (exampleProvisioner Map.empty) (exampleVolume ''/export/default-data-pvc-1'') =
     ''/persistentvolumes/default-data-pvc-1'' \<and>
   IsNotExist (Stat refOS ''/persistentvolumes/default-data-pvc-1'' []) \<and>
   Delete refOS (exampleProvisioner Map.empty) (exampleVolume ''/export/default-data-pvc-1'') [] =
     (None, [WarningPathDoesNotExist ''/persistentvolumes/default-data-pvc-1''], [])"
proof -
  have f: "prefix (path (exampleProvisioner Map.empty))
             (drop 4 (Path (NFS (exampleVolume ''/mnt/export/export/a'')))) \<and>
           (\<forall>j<4. \<not> prefix (path (exampleProvisioner Map.empty))
                       (drop j (Path (NFS (exampleVolume ''/mnt/export/export/a'')))))"
    by (simp add: exampleVolume_simps exampleProvisioner_simps eval_nat_numeral All_less_Suc)
  have 1: "oldPath (exampleProvisioner Map.empty) (exampleVolume ''/mnt/export/export/a'') =
     ''/mnt/persistentvolumes/export/a''"
    using f Delete_local_path [of "exampleProvisioner Map.empty" 4
        "exampleVolume ''/mnt/export/export/a''", THEN conjunct1]
    by (simp add: exampleVolume_simps exampleProvisioner_simps mountPath_def)
  have a: "\<forall>j\<le>length (Path (NFS (exampleVolume ''/x''))).
       \<not> prefix (path (exampleProvisioner Map.empty)) (drop j (Path (NFS (exampleVolume ''/x''))))"
    by (simp add: exampleVolume_simps exampleProvisioner_simps eval_nat_numeral All_less_Suc
        le_Suc_eq)
  have 2: "oldPath (exampleProvisioner Map.empty) (exampleVolume ''/x'') = ''/x''"
    using a Delete_local_path [of "exampleProvisioner Map.empty" _ "exampleVolume ''/x''",
        THEN conjunct2, THEN conjunct1]
    by (simp add: exampleVolume_simps)
  have h: "Path (NFS (exampleVolume ''/export/default-data-pvc-1'')) =
     path (exampleProvisioner Map.empty) @ ''/default-data-pvc-1''"
    by (simp add: exampleVolume_simps exampleProvisioner_simps)
  have n: "IsNotExist (Stat refOS ''/persistentvolumes/default-data-pvc-1'' [])"
    by (simp add: refOS_defs)
  have 3: "oldPath (exampleProvisioner Map.empty) (exampleVolume ''/export/default-data-pvc-1'') =
     ''/persistentvolumes/default-data-pvc-1'' \<and>
     Delete refOS (exampleProvisioner Map.empty) (exampleVolume ''/export/default-data-pvc-1'') [] =
     (None, [WarningPathDoesNotExist ''/persistentvolumes/default-data-pvc-1''], [])"
    using h n Delete_local_path [of "exampleProvisioner Map.empty" _
        "exampleVolume ''/export/default-data-pvc-1''" "''/default-data-pvc-1''" refOS "[]",
        THEN conjunct2, THEN conjunct2]
    by (simp add: mountPath_def)
  show ?thesis using 1 2 h n 3 by simp
qed

subsection \<open>Delete: the precedence of the parameters\<close>

text \<open>
  C1. When the local path exists (\<open>os.Stat\<close> does not report it missing) and the
  storage class is found: with \<open>onDelete\<close> equal to "delete" the call is
  \<open>os.RemoveAll\<close> of the local path; with "retain" the call succeeds and the file
  system is untouched; with any other value, or none, \<open>archiveOnDelete\<close> decides: a
  value that parses to false gives \<open>os.RemoveAll\<close>, a value that parses to true or no
  value gives \<open>os.Rename\<close> of the local path to the archive path, a value that does
  not parse gives the error of \<open>strconv.ParseBool\<close> with the file system untouched.
  The archive path is \<open>archived-\<close> and the base name of the server path, under the
  mount root (the base name is \<open>/\<close> only for a server path made of separators).
\<close>

theorem Delete_precedence:
  assumes "\<not> IsNotExist (Stat os (oldPath p volume) w)"
    and "getClassForVolume p volume = Inr storageClass"
  shows
    "(lookup (Parameters storageClass) ''onDelete'' = ''delete'' \<longrightarrow>
        Delete os p volume w = returned (RemoveAll os (oldPath p volume) w) []) \<and>
     (lookup (Parameters storageClass) ''onDelete'' = ''retain'' \<longrightarrow>
        Delete os p volume w = (None, [], w)) \<and>
     (lookup (Parameters storageClass) ''onDelete'' \<noteq> ''delete'' \<and>
      lookup (Parameters storageClass) ''onDelete'' \<noteq> ''retain'' \<longrightarrow>
        (Parameters storageClass ''archiveOnDelete'' = Some v \<and> ParseBool v = Inr False \<longrightarrow>
           Delete os p volume w = returned (RemoveAll os (oldPath p volume) w) []) \<and>
        ((Parameters storageClass ''archiveOnDelete'' = Some v \<and> ParseBool v = Inr True) \<or>
         Parameters storageClass ''archiveOnDelete'' = None \<longrightarrow>
           Delete os p volume w =
             returned (Rename os (oldPath p volume) (archivePath volume) w)
               [InfoArchivingPath (oldPath p volume) (archivePath volume)]) \<and>
        (Parameters storageClass ''archiveOnDelete'' = Some v \<and> ParseBool v = Inl e \<longrightarrow>
           Delete os p volume w = (Some (InvalidBool v e), [], w))) \<and>
     (Base (Path (NFS volume)) \<noteq> ''/'' \<longrightarrow>
        archivePath volume = mountPath @ ''/archived-'' @ Base (Path (NFS volume)))"
  unfolding Delete_dispatch[OF assms] using archivePath_plain[of volume] by auto

theorem Delete_precedence_witness:
  "\<not> IsNotExist (Stat refOS ''/persistentvolumes/default-data-pvc-1'' exampleTree) \<and>
   Delete refOS (exampleProvisioner [''onDelete'' \<mapsto> ''delete'', ''archiveOnDelete'' \<mapsto> ''true''])
     (exampleVolume ''/export/default-data-pvc-1'') exampleTree = (None, [], []) \<and>
   Delete refOS (exampleProvisioner [''onDelete'' \<mapsto> ''retain'', ''archiveOnDelete'' \<mapsto> ''false''])
     (exampleVolume ''/export/default-data-pvc-1'') exampleTree = (None, [], exampleTree) \<and>
   Delete refOS (exampleProvisioner [''archiveOnDelete'' \<mapsto> ''false''])
     (exampleVolume ''/export/default-data-pvc-1'') exampleTree = (None, [], []) \<and>
   Delete refOS (exampleProvisioner Map.empty)
     (exampleVolume ''/export/default-data-pvc-1'') exampleTree =
     (None,
      [InfoArchivingPath ''/persistentvolumes/default-data-pvc-1''
         ''/persistentvolumes/archived-default-data-pvc-1''],
      [(''/persistentvolumes/archived-default-data-pvc-1'', 511, 1000, 100),
       (''/persistentvolumes/archived-default-data-pvc-1/a'', 493, 1000, 100)]) \<and>
   Delete refOS (exampleProvisioner [''archiveOnDelete'' \<mapsto> ''yes''])
     (exampleVolume ''/export/default-data-pvc-1'') exampleTree =
     (Some (InvalidBool ''yes'' ErrSyntax), [], exampleTree)"
proof -
  have st: "\<not> IsNotExist (Stat refOS
      (oldPath (exampleProvisioner ps) (exampleVolume ''/export/default-data-pvc-1'')) exampleTree)"
    for ps
    unfolding example_oldPath by (simp add: refOS_defs exampleTree_def)
  note t = Delete_precedence [OF st example_getClass]
  have rm: "returned (RemoveAll refOS ''/persistentvolumes/default-data-pvc-1'' exampleTree) [] =
      (None, [], [])"
    by (simp add: refOS_defs exampleTree_def)
  have mv: "returned (Rename refOS ''/persistentvolumes/default-data-pvc-1''
        ''/persistentvolumes/archived-default-data-pvc-1'' exampleTree)
        [InfoArchivingPath ''/persistentvolumes/default-data-pvc-1''
           ''/persistentvolumes/archived-default-data-pvc-1''] =
      (None,
       [InfoArchivingPath ''/persistentvolumes/default-data-pvc-1''
          ''/persistentvolumes/archived-default-data-pvc-1''],
       [(''/persistentvolumes/archived-default-data-pvc-1'', 511, 1000, 100),
        (''/persistentvolumes/archived-default-data-pvc-1/a'', 493, 1000, 100)])"
    by (simp add: refOS_defs exampleTree_def)
  have 1: "Delete refOS (exampleProvisioner [''onDelete'' \<mapsto> ''delete'', ''archiveOnDelete'' \<mapsto> ''true''])
     (exampleVolume ''/export/default-data-pvc-1'') exampleTree = (None, [], [])"
    using t [of "[''onDelete'' \<mapsto> ''delete'', ''archiveOnDelete'' \<mapsto> ''true'']"]
    unfolding example_oldPath rm by (simp add: exampleClass_def lookup_def)
  have 2: "Delete refOS (exampleProvisioner [''onDelete'' \<mapsto> ''retain'', ''archiveOnDelete'' \<mapsto> ''false''])
     (exampleVolume ''/export/default-data-pvc-1'') exampleTree = (None, [], exampleTree)"
    using t [of "[''onDelete'' \<mapsto> ''retain'', ''archiveOnDelete'' \<mapsto> ''false'']"]
    by (simp add: exampleClass_def lookup_def)
  have 3: "Delete refOS (exampleProvisioner [''archiveOnDelete'' \<mapsto> ''false''])
     (exampleVolume ''/export/default-data-pvc-1'') exampleTree = (None, [], [])"
    using t [of "[''archiveOnDelete'' \<mapsto> ''false'']" "''false''"]
    unfolding example_oldPath rm by (simp add: exampleClass_def lookup_def ParseBool_def)
  have 4: "Delete refOS (exampleProvisioner Map.empty)
     (exampleVolume ''/export/default-data-pvc-1'') exampleTree =
     (None,
      [InfoArchivingPath ''/persistentvolumes/default-data-pvc-1''
         ''/persistentvolumes/archived-default-data-pvc-1''],
      [(''/persistentvolumes/archived-default-data-pvc-1'', 511, 1000, 100),
       (''/persistentvolumes/archived-default-data-pvc-1/a'', 493, 1000, 100)])"
    using t [of Map.empty]
    unfolding example_oldPath example_archivePath mv by (simp add: exampleClass_def lookup_def)
  have 5: "Delete refOS (exampleProvisioner [''archiveOnDelete'' \<mapsto> ''yes''])
     (exampleVolume ''/export/default-data-pvc-1'') exampleTree =
     (Some (InvalidBool ''yes'' ErrSyntax), [], exampleTree)"
    using t [of "[''archiveOnDelete'' \<mapsto> ''yes'']" "''yes''" ErrSyntax]
    by (simp add: exampleClass_def lookup_def ParseBool_def)
  have 0: "\<not> IsNotExist (Stat refOS ''/persistentvolumes/default-data-pvc-1'' exampleTree)"
    by (simp add: refOS_defs exampleTree_def)
  show ?thesis using 0 1 2 3 4 5 by (intro conjI)
qed

subsection \<open>Delete: a path that is already gone\<close>

lemma example_delete_no_lookup:
  "Delete refOS ((exampleProvisioner ps)\<lparr>client := Some (\<lambda>name. Inl Unavailable)\<rparr>)
     (exampleVolume ''/export/default-data-pvc-1'') exampleTree =
     (Some (ClientError Unavailable), [], exampleTree)"
  unfolding Delete_def Let_def oldPath_client example_oldPath
  by (simp add: getClassForVolume_def exampleVolume_simps refOS_defs exampleTree_def)

text \<open>
  C3, as stated, says that a second \<open>Delete\<close> of the same volume never fails. It does
  when the first one failed before it touched the directory: with the parameter
  \<open>archiveOnDelete\<close> set to "yes", which \<open>strconv.ParseBool\<close> refuses, the directory
  exists before and after the first call, and the second call returns the same
  error. It also does after a first call that succeeded and left the directory in
  place: with \<open>onDelete\<close> set to "retain" the directory is still there, the second
  call asks for the storage class again (line 199), and when that lookup fails the
  second call returns its error.
\<close>

theorem Delete_twice_counterexample:
  "fst (Delete refOS (exampleProvisioner [''archiveOnDelete'' \<mapsto> ''yes''])
          (exampleVolume ''/export/default-data-pvc-1'') exampleTree) =
     Some (InvalidBool ''yes'' ErrSyntax) \<and>
   fst (Delete refOS (exampleProvisioner [''archiveOnDelete'' \<mapsto> ''yes''])
          (exampleVolume ''/export/default-data-pvc-1'')
          (snd (snd (Delete refOS (exampleProvisioner [''archiveOnDelete'' \<mapsto> ''yes''])
             (exampleVolume ''/export/default-data-pvc-1'') exampleTree)))) =
     Some (InvalidBool ''yes'' ErrSyntax) \<and>
   fst (Delete refOS
          (exampleProvisioner [''onDelete'' \<mapsto> ''retain'', ''archiveOnDelete'' \<mapsto> ''false''])
          (exampleVolume ''/export/default-data-pvc-1'') exampleTree) = None \<and>
   fst (Delete refOS
          ((exampleProvisioner [''onDelete'' \<mapsto> ''retain'', ''archiveOnDelete'' \<mapsto> ''false''])
             \<lparr>client := Some (\<lambda>name. Inl Unavailable)\<rparr>)
          (exampleVolume ''/export/default-data-pvc-1'')
          (snd (snd (Delete refOS
             (exampleProvisioner [''onDelete'' \<mapsto> ''retain'', ''archiveOnDelete'' \<mapsto> ''false''])
             (exampleVolume ''/export/default-data-pvc-1'') exampleTree)))) =
     Some (ClientError Unavailable)"
  by (simp add: example_delete_runs example_delete_no_lookup)

lemma Delete_outcomes:
  "Delete os p volume w = (None, [WarningPathDoesNotExist (oldPath p volume)], w) \<or>
   Delete os p volume w = (None, [], w) \<or>
   (\<exists>e. Delete os p volume w = (Some e, [], w)) \<or>
   Delete os p volume w = returned (RemoveAll os (oldPath p volume) w) [] \<or>
   Delete os p volume w =
     returned (Rename os (oldPath p volume) (archivePath volume) w)
       [InfoArchivingPath (oldPath p volume) (archivePath volume)]"
proof (cases "IsNotExist (Stat os (oldPath p volume) w)")
  case True
  then show ?thesis by (simp add: Delete_not_exist)
next
  case False
  show ?thesis
  proof (cases "getClassForVolume p volume")
    case (Inl e)
    then show ?thesis using False by (simp add: Delete_def)
  next
    case (Inr storageClass)
    show ?thesis
      unfolding Delete_dispatch[OF False Inr]
      by (simp split: option.splits sum.splits)
  qed
qed

lemma returned_success:
  assumes "fst (returned r lg) = None"
  shows "r = (None, snd (snd (returned r lg)))"
  using assms by (cases r) (simp add: returned_def)

lemma Delete_second_call:
  assumes ok: "fst (Delete os p volume w) = None"
    and rm: "\<forall>s. RemoveAll os (oldPath p volume) w = (None, s) \<longrightarrow>
               IsNotExist (Stat os (oldPath p volume) s)"
    and mv: "\<forall>s. Rename os (oldPath p volume) (archivePath volume) w = (None, s) \<longrightarrow>
               IsNotExist (Stat os (oldPath p volume) s)"
  shows "fst (Delete os p volume (snd (snd (Delete os p volume w)))) = None"
proof -
  let ?w1 = "snd (snd (Delete os p volume w))"
  consider (same) "?w1 = w"
    | (gone) "IsNotExist (Stat os (oldPath p volume) ?w1)"
    using Delete_outcomes[of os p volume w]
  proof (elim disjE exE)
    assume "Delete os p volume w = returned (RemoveAll os (oldPath p volume) w) []"
    then have "RemoveAll os (oldPath p volume) w = (None, ?w1)"
      using ok returned_success by metis
    then show ?thesis using rm that(2) by blast
  next
    assume "Delete os p volume w =
      returned (Rename os (oldPath p volume) (archivePath volume) w)
        [InfoArchivingPath (oldPath p volume) (archivePath volume)]"
    then have "Rename os (oldPath p volume) (archivePath volume) w = (None, ?w1)"
      using ok returned_success by metis
    then show ?thesis using mv that(2) by blast
  qed (use that(1) in auto)
  then show ?thesis
  proof cases
    case same
    then show ?thesis using ok by simp
  next
    case gone
    then show ?thesis by (simp add: Delete_not_exist)
  qed
qed

lemma Delete_same_lookup:
  assumes "getClassForVolume (p\<lparr>client := c\<rparr>) volume = getClassForVolume p volume"
  shows "Delete os (p\<lparr>client := c\<rparr>) volume w = Delete os p volume w"
  unfolding Delete_def oldPath_client assms by (rule refl)

lemma Delete_second_call_lookup:
  assumes ok: "fst (Delete os p volume w) = None"
    and rm: "\<forall>s. RemoveAll os (oldPath p volume) w = (None, s) \<longrightarrow>
               IsNotExist (Stat os (oldPath p volume) s)"
    and mv: "\<forall>s. Rename os (oldPath p volume) (archivePath volume) w = (None, s) \<longrightarrow>
               IsNotExist (Stat os (oldPath p volume) s)"
    and lk: "\<not> IsNotExist (Stat os (oldPath p volume) (snd (snd (Delete os p volume w)))) \<longrightarrow>
               getClassForVolume (p\<lparr>client := c\<rparr>) volume = getClassForVolume p volume"
  shows "fst (Delete os (p\<lparr>client := c\<rparr>) volume (snd (snd (Delete os p volume w)))) = None"
proof (cases "IsNotExist (Stat os (oldPath p volume) (snd (snd (Delete os p volume w))))")
  case True
  then show ?thesis
    using Delete_not_exist [of os "p\<lparr>client := c\<rparr>" volume] by (simp add: oldPath_client)
next
  case False
  then have "getClassForVolume (p\<lparr>client := c\<rparr>) volume = getClassForVolume p volume"
    using lk by simp
  then show ?thesis
    using Delete_second_call[OF ok rm mv] by (simp add: Delete_same_lookup)
qed

text \<open>
  C3, amended. When the local path does not exist, \<open>Delete\<close> returns success, logs
  the warning and leaves the file system as it is, without asking for the storage
  class: the result is the same for every client, also for none. Consequently a
  second \<open>Delete\<close> of the same volume, whatever its client answers once the
  directory is gone, succeeds whenever the first one succeeded, on a file system that
  reports the local path as absent once \<open>os.RemoveAll\<close> or \<open>os.Rename\<close> has taken it
  away, and provided that, where the first call left the directory in place, the
  storage class lookup of the second call answers as that of the first did.
\<close>

theorem Delete_absent_path:
  "(IsNotExist (Stat os (oldPath p volume) w) \<longrightarrow>
      Delete os (p\<lparr>client := c\<rparr>) volume w =
        (None, [WarningPathDoesNotExist (oldPath p volume)], w)) \<and>
   (fst (Delete os p volume w) = None \<and>
    (\<forall>s. RemoveAll os (oldPath p volume) w = (None, s) \<longrightarrow>
         IsNotExist (Stat os (oldPath p volume) s)) \<and>
    (\<forall>s. Rename os (oldPath p volume) (archivePath volume) w = (None, s) \<longrightarrow>
         IsNotExist (Stat os (oldPath p volume) s)) \<and>
    (\<not> IsNotExist (Stat os (oldPath p volume) (snd (snd (Delete os p volume w)))) \<longrightarrow>
         getClassForVolume (p\<lparr>client := c\<rparr>) volume = getClassForVolume p volume) \<longrightarrow>
      fst (Delete os (p\<lparr>client := c\<rparr>) volume (snd (snd (Delete os p volume w)))) = None)"
  using Delete_not_exist [of os "p\<lparr>client := c\<rparr>" volume w]
    Delete_second_call_lookup [of os p volume w c]
  by (simp add: oldPath_client)

theorem Delete_absent_path_witness:
  "IsNotExist (Stat refOS ''/persistentvolumes/default-data-pvc-1'' []) \<and>
   Delete refOS ((exampleProvisioner Map.empty)\<lparr>client := None\<rparr>)
       (exampleVolume ''/export/default-data-pvc-1'') [] =
     (None, [WarningPathDoesNotExist ''/persistentvolumes/default-data-pvc-1''], []) \<and>
   fst (Delete refOS (exampleProvisioner Map.empty)
       (exampleVolume ''/export/default-data-pvc-1'') exampleTree) = None \<and>
   snd (RemoveAll refOS ''/persistentvolumes/default-data-pvc-1'' exampleTree) = [] \<and>
   snd (Rename refOS ''/persistentvolumes/default-data-pvc-1''
          ''/persistentvolumes/archived-default-data-pvc-1'' exampleTree) =
     [(''/persistentvolumes/archived-default-data-pvc-1'', 511, 1000, 100),
      (''/persistentvolumes/archived-default-data-pvc-1/a'', 493, 1000, 100)] \<and>
   fst (Delete refOS ((exampleProvisioner Map.empty)\<lparr>client := None\<rparr>)
       (exampleVolume ''/export/default-data-pvc-1'')
       (snd (snd (Delete refOS (exampleProvisioner Map.empty)
          (exampleVolume ''/export/default-data-pvc-1'') exampleTree)))) = None \<and>
   fst (Delete refOS
       (exampleProvisioner [''onDelete'' \<mapsto> ''retain'', ''archiveOnDelete'' \<mapsto> ''false''])
       (exampleVolume ''/export/default-data-pvc-1'') exampleTree) = None \<and>
   getClassForVolume
       ((exampleProvisioner [''onDelete'' \<mapsto> ''retain'', ''archiveOnDelete'' \<mapsto> ''false''])
          \<lparr>client := Some (\<lambda>name. Inr (exampleClass
              [''onDelete'' \<mapsto> ''retain'', ''archiveOnDelete'' \<mapsto> ''false'']))\<rparr>)
       (exampleVolume ''/export/default-data-pvc-1'') =
     getClassForVolume
       (exampleProvisioner [''onDelete'' \<mapsto> ''retain'', ''archiveOnDelete'' \<mapsto> ''false''])
       (exampleVolume ''/export/default-data-pvc-1'') \<and>
   fst (Delete refOS
       ((exampleProvisioner [''onDelete'' \<mapsto> ''retain'', ''archiveOnDelete'' \<mapsto> ''false''])
          \<lparr>client := Some (\<lambda>name. Inr (exampleClass
              [''onDelete'' \<mapsto> ''retain'', ''archiveOnDelete'' \<mapsto> ''false'']))\<rparr>)
       (exampleVolume ''/export/default-data-pvc-1'')
       (snd (snd (Delete refOS
          (exampleProvisioner [''onDelete'' \<mapsto> ''retain'', ''archiveOnDelete'' \<mapsto> ''false''])
          (exampleVolume ''/export/default-data-pvc-1'') exampleTree)))) = None"
proof -
  let ?v = "exampleVolume ''/export/default-data-pvc-1''"
  let ?r = "exampleProvisioner [''onDelete'' \<mapsto> ''retain'', ''archiveOnDelete'' \<mapsto> ''false'']"
  let ?c = "Some (\<lambda>name::string. Inr (exampleClass
              [''onDelete'' \<mapsto> ''retain'', ''archiveOnDelete'' \<mapsto> ''false''])
              :: api_error + StorageClass)"
  have n: "IsNotExist (Stat refOS ''/persistentvolumes/default-data-pvc-1'' [])"
    by (simp add: refOS_defs)
  have 1: "Delete refOS ((exampleProvisioner Map.empty)\<lparr>client := None\<rparr>) ?v [] =
     (None, [WarningPathDoesNotExist ''/persistentvolumes/default-data-pvc-1''], [])"
    using n Delete_absent_path [of refOS "exampleProvisioner Map.empty" ?v "[]" None]
    unfolding example_oldPath by simp
  have ok: "fst (Delete refOS (exampleProvisioner Map.empty) ?v exampleTree) = None"
    by (simp add: example_delete_runs)
  have rm: "RemoveAll refOS ''/persistentvolumes/default-data-pvc-1'' exampleTree = (None, [])"
    by (simp add: refOS_defs exampleTree_def)
  have mv: "Rename refOS ''/persistentvolumes/default-data-pvc-1''
          ''/persistentvolumes/archived-default-data-pvc-1'' exampleTree =
     (None, [(''/persistentvolumes/archived-default-data-pvc-1'', 511, 1000, 100),
             (''/persistentvolumes/archived-default-data-pvc-1/a'', 493, 1000, 100)])"
    by (simp add: refOS_defs exampleTree_def)
  have gone: "IsNotExist (Stat refOS ''/persistentvolumes/default-data-pvc-1''
       [(''/persistentvolumes/archived-default-data-pvc-1'', 511, 1000, 100),
        (''/persistentvolumes/archived-default-data-pvc-1/a'', 493, 1000, 100)])"
    by (simp add: refOS_defs)
  have 2: "fst (Delete refOS ((exampleProvisioner Map.empty)\<lparr>client := None\<rparr>) ?v
       (snd (snd (Delete refOS (exampleProvisioner Map.empty) ?v exampleTree)))) = None"
    using ok n gone Delete_absent_path [of refOS "exampleProvisioner Map.empty" ?v exampleTree None]
    unfolding example_oldPath example_archivePath rm mv by (simp add: example_delete_runs)
  have ok3: "fst (Delete refOS ?r ?v exampleTree) = None"
    by (simp add: example_delete_runs)
  have lk: "getClassForVolume (?r\<lparr>client := ?c\<rparr>) ?v = getClassForVolume ?r ?v"
    unfolding example_getClass by (simp add: getClassForVolume_def exampleVolume_simps)
  have 3: "fst (Delete refOS (?r\<lparr>client := ?c\<rparr>) ?v
       (snd (snd (Delete refOS ?r ?v exampleTree)))) = None"
    using ok3 n gone lk Delete_absent_path [of refOS ?r ?v exampleTree ?c]
    unfolding example_oldPath example_archivePath rm mv by simp
  show ?thesis using n 1 ok 2 ok3 lk 3 by (simp add: rm mv)
qed

subsection \<open>The matches of the pattern are the placeholders\<close>

lemma lazyUntilBrace_iff:
  "lazyUntilBrace s = Some (x, rest) \<longleftrightarrow> s = x @ CHR ''}'' # rest \<and> list_all notBrace x"
proof
  assume a: "lazyUntilBrace s = Some (x, rest)"
  then have "x = takeWhile (\<lambda>c. c \<noteq> CHR ''}'' \<and> c \<noteq> CHR 0x0A) s"
    by (auto simp: lazyUntilBrace_def Let_def split: list.splits if_splits)
  then have "list_all notBrace x"
    by (auto simp: list_all_iff notBrace_def dest: set_takeWhileD)
  with lazyUntilBrace_decompose[OF a] show "s = x @ CHR ''}'' # rest \<and> list_all notBrace x"
    by simp
next
  assume a: "s = x @ CHR ''}'' # rest \<and> list_all notBrace x"
  then have all: "\<forall>c\<in>set x. c \<noteq> CHR ''}'' \<and> c \<noteq> CHR 0x0A"
    by (simp add: list_all_iff notBrace_def)
  have "takeWhile (\<lambda>c. c \<noteq> CHR ''}'' \<and> c \<noteq> CHR 0x0A) (x @ CHR ''}'' # rest) = x"
    using all by (simp add: takeWhile_tail)
  moreover have "dropWhile (\<lambda>c. c \<noteq> CHR ''}'' \<and> c \<noteq> CHR 0x0A) (x @ CHR ''}'' # rest) = CHR ''}'' # rest"
    using all by (simp add: dropWhile_append3)
  ultimately show "lazyUntilBrace s = Some (x, rest)"
    using a by (simp add: lazyUntilBrace_def Let_def)
qed

lemma prefix_before_brace:
  assumes "list_all notBrace pre" and "list_all notBrace body"
  shows "prefix pre (body @ CHR ''}'' # rest) \<longleftrightarrow> prefix pre body"
proof
  assume "prefix pre (body @ CHR ''}'' # rest)"
  then consider "prefix pre body" | us where "pre = body @ us" "prefix us (CHR ''}'' # rest)"
    by (auto simp: prefix_append)
  then show "prefix pre body"
  proof cases
    case 1
    then show ?thesis .
  next
    case 2
    then have "us = []" using assms(1) by (cases us) (auto simp: notBrace_def)
    with 2 show ?thesis by simp
  qed
next
  assume "prefix pre body"
  then show "prefix pre (body @ CHR ''}'' # rest)" by (simp add: prefix_prefix)
qed

lemma firstAlternative_body:
  assumes "list_all notBrace body"
  shows "firstAlternative (body @ CHR ''}'' # rest) =
     (if prefix ''labels.'' body then Some (''labels'', drop 7 body, rest)
      else if prefix ''annotations.'' body then Some (''annotations'', drop 12 body, rest)
      else None)"
proof -
  have nb: "list_all notBrace ''labels.''" "list_all notBrace ''annotations.''"
    "list_all notBrace ''labels''" "list_all notBrace ''annotations''"
    by (simp_all add: notBrace_def)
  note pb = prefix_before_brace[OF _ assms, of _ rest]
  have la: "\<not> (prefix ''labels'' t \<and> prefix ''annotations'' t)" for t :: string
    by (auto simp: prefix_def)
  show ?thesis
  proof (cases "prefix ''labels'' body")
    case True
    then obtain t where body: "body = ''labels'' @ t" by (auto simp: prefix_def)
    have t: "list_all notBrace t" using assms body by simp
    show ?thesis
    proof (cases t)
      case Nil
      then show ?thesis using body by (simp add: firstAlternative_def stripPrefix_def)
    next
      case (Cons c t')
      show ?thesis
      proof (cases "c = CHR ''.''")
        case True
        have "lazyUntilBrace (t' @ CHR ''}'' # rest) = Some (t', rest)"
          using t Cons by (simp add: lazyUntilBrace_iff)
        then show ?thesis using body Cons True
          by (simp add: firstAlternative_def stripPrefix_def)
      next
        case False
        then show ?thesis using body Cons
          by (simp add: firstAlternative_def stripPrefix_def)
      qed
    qed
  next
    case nl: False
    then have nl': "\<not> prefix ''labels'' (body @ CHR ''}'' # rest)" using pb[OF nb(3)] by simp
    have nl'': "\<not> prefix ''labels.'' body" using nl by (auto simp: prefix_def)
    show ?thesis
    proof (cases "prefix ''annotations'' body")
      case True
      then obtain t where body: "body = ''annotations'' @ t" by (auto simp: prefix_def)
      have t: "list_all notBrace t" using assms body by simp
      show ?thesis
      proof (cases t)
        case Nil
        then show ?thesis using body by (simp add: firstAlternative_def stripPrefix_def)
      next
        case (Cons c t')
        show ?thesis
        proof (cases "c = CHR ''.''")
          case True
          have "lazyUntilBrace (t' @ CHR ''}'' # rest) = Some (t', rest)"
            using t Cons by (simp add: lazyUntilBrace_iff)
          then show ?thesis using body Cons True
            by (simp add: firstAlternative_def stripPrefix_def)
        next
          case False
          then show ?thesis using body Cons
            by (simp add: firstAlternative_def stripPrefix_def)
        qed
      qed
    next
      case na: False
      then have na': "\<not> prefix ''annotations'' (body @ CHR ''}'' # rest)" using pb[OF nb(4)] by simp
      have na'': "\<not> prefix ''annotations.'' body" using na by (auto simp: prefix_def)
      show ?thesis using nl' na' nl'' na''
        by (simp add: firstAlternative_def del: prefix_code)
    qed
  qed
qed

lemma matchAt_placeholderAt:
  "matchAt s = map_option (\<lambda>(body, rest). (groups body, rest)) (placeholderAt s)"
proof (cases "stripPrefix ''${.PVC.'' s")
  case None
  then show ?thesis by (simp add: matchAt_def placeholderAt_def)
next
  case (Some t)
  show ?thesis
  proof (cases "lazyUntilBrace t")
    case None
    have "firstAlternative t = None"
    proof (rule ccontr)
      assume "firstAlternative t \<noteq> None"
      then obtain g2 g3 rest where fa: "firstAlternative t = Some (g2, g3, rest)" by auto
      then obtain s1 where t: "t = g2 @ ''.'' @ s1" and g2: "g2 = ''labels'' \<or> g2 = ''annotations''"
        and l: "lazyUntilBrace s1 = Some (g3, rest)"
        by (auto simp: firstAlternative_def stripPrefix_def prefix_def
            split: if_splits option.splits)
      have "list_all notBrace (g2 @ ''.'' @ g3)"
        using l g2 by (auto simp: lazyUntilBrace_iff notBrace_def)
      moreover have "t = (g2 @ ''.'' @ g3) @ CHR ''}'' # rest"
        using t l by (simp add: lazyUntilBrace_iff)
      ultimately have "lazyUntilBrace t = Some (g2 @ ''.'' @ g3, rest)"
        by (simp only: lazyUntilBrace_iff)
      with None show False by simp
    qed
    with None Some show ?thesis by (simp add: matchAt_def placeholderAt_def)
  next
    case (Some a)
    obtain body rest where a: "a = (body, rest)" by (cases a)
    have t: "t = body @ CHR ''}'' # rest" and nb: "list_all notBrace body"
      using Some a by (simp_all add: lazyUntilBrace_iff)
    have l7: "prefix ''labels.'' body \<Longrightarrow> ''labels.'' @ drop 7 body = body"
      by (auto simp: prefix_def)
    have l12: "prefix ''annotations.'' body \<Longrightarrow> ''annotations.'' @ drop 12 body = body"
      by (auto simp: prefix_def)
    have m: "matchAt s =
        (case firstAlternative (body @ CHR ''}'' # rest) of
           Some (g2, g3, rest) \<Rightarrow>
             Some ((''${.PVC.'' @ g2 @ ''.'' @ g3 @ ''}'', g2 @ ''.'' @ g3, g2, g3), rest)
         | None \<Rightarrow> Some ((''${.PVC.'' @ body @ ''}'', body, [], []), rest))"
      using \<open>stripPrefix ''${.PVC.'' s = Some t\<close> Some a
      by (simp add: matchAt_def t split: option.splits)
    have p: "placeholderAt s = Some (body, rest)"
      using \<open>stripPrefix ''${.PVC.'' s = Some t\<close> Some a by (simp add: placeholderAt_def)
    show ?thesis
    proof (cases "prefix ''labels.'' body")
      case True
      then have "''labels'' @ ''.'' @ drop 7 body = body" using l7 by simp
      then show ?thesis
        unfolding m p firstAlternative_body[OF nb] groups_def using True by simp
    next
      case nl: False
      show ?thesis
      proof (cases "prefix ''annotations.'' body")
        case True
        then have "''annotations'' @ ''.'' @ drop 12 body = body" using l12 by simp
        then show ?thesis
          unfolding m p firstAlternative_body[OF nb] groups_def using True nl by simp
      next
        case False
        then show ?thesis
          unfolding m p firstAlternative_body[OF nb] groups_def using nl by simp
      qed
    qed
  qed
qed

lemma placeholderAt_iff:
  "placeholderAt s = Some (body, rest) \<longleftrightarrow>
     s = ''${.PVC.'' @ body @ CHR ''}'' # rest \<and> list_all notBrace body"
  by (auto simp: placeholderAt_def stripPrefix_def lazyUntilBrace_iff prefix_def
      split: option.splits if_splits)

lemma concat_raw_pieces: "concat (map raw (pieces s)) = s"
proof (induction s rule: pieces.induct)
  case 1
  then show ?case by simp
next
  case (2 c cs)
  show ?case
  proof (cases "placeholderAt (c # cs)")
    case None
    then show ?thesis using 2 by simp
  next
    case (Some a)
    obtain body rest where a: "a = (body, rest)" by (cases a)
    have "c # cs = ''${.PVC.'' @ body @ CHR ''}'' # rest"
      using Some a by (simp add: placeholderAt_iff)
    moreover have "concat (map raw (pieces rest)) = rest"
      using 2(2)[OF Some a[symmetric]] by simp
    ultimately show ?thesis using Some a by simp
  qed
qed

lemma substituteOnce_pieces: "substituteOnce meta s = concat (map (rendered meta) (pieces s))"
proof (induction s rule: pieces.induct)
  case 1
  then show ?case by simp
next
  case (2 c cs)
  show ?case
  proof (cases "placeholderAt (c # cs)")
    case None
    then show ?thesis using 2 by simp
  next
    case (Some a)
    obtain body rest where a: "a = (body, rest)" by (cases a)
    show ?thesis using Some a 2(2)[OF Some a[symmetric]] by simp
  qed
qed

lemma FindAll_pieces: "FindAllStringSubmatch s = map groups (holeBodies (pieces s))"
proof (induction s rule: pieces.induct)
  case 1
  then show ?case by simp
next
  case (2 c cs)
  show ?case
  proof (cases "placeholderAt (c # cs)")
    case None
    then show ?thesis using 2 by (simp add: matchAt_placeholderAt)
  next
    case (Some a)
    obtain body rest where a: "a = (body, rest)" by (cases a)
    show ?thesis using Some a 2(2)[OF Some a[symmetric]] by (simp add: matchAt_placeholderAt)
  qed
qed

lemma pieces_holes_notBrace: "Hole body \<in> set (pieces s) \<Longrightarrow> list_all notBrace body"
proof (induction s rule: pieces.induct)
  case 1
  then show ?case by simp
next
  case (2 c cs)
  show ?case
  proof (cases "placeholderAt (c # cs)")
    case None
    then show ?thesis using 2 by auto
  next
    case (Some a)
    obtain b rest where a: "a = (b, rest)" by (cases a)
    have "list_all notBrace b" using Some a by (simp add: placeholderAt_iff)
    then show ?thesis using Some a 2(2)[OF Some a[symmetric]] 2(3) by auto
  qed
qed

lemma concat_raw_Lit: "concat (map (raw \<circ> Lit) v) = v"
  by (induction v) auto

lemma scan_same:
  "m \<noteq> [] \<Longrightarrow> ReplaceAll_scan m v (m @ rest) = v @ ReplaceAll_scan m v rest"
  by (cases m) auto

lemma scan_no_dollar:
  "CHR ''$'' \<notin> set x \<Longrightarrow> ReplaceAll_scan (CHR ''$'' # m) v (x @ rest) =
     x @ ReplaceAll_scan (CHR ''$'' # m) v rest"
  by (induction x) auto

lemma brace_prefix_eq:
  assumes "list_all notBrace b" and "list_all notBrace h"
    and "prefix (b @ [CHR ''}'']) (h @ CHR ''}'' # rest)"
  shows "b = h"
proof -
  obtain t where t: "h @ CHR ''}'' # rest = b @ CHR ''}'' # t"
    using assms(3) by (auto simp: prefix_def)
  have "lazyUntilBrace (h @ CHR ''}'' # rest) = Some (h, rest)"
    using assms(2) by (simp add: lazyUntilBrace_iff)
  moreover have "lazyUntilBrace (h @ CHR ''}'' # rest) = Some (b, t)"
    unfolding t using assms(1) by (simp add: lazyUntilBrace_iff)
  ultimately show ?thesis by simp
qed

lemma scan_other_hole:
  assumes "good (Hole b)" and "good (Hole h)" and "h \<noteq> b"
  shows "ReplaceAll_scan (raw (Hole b)) v (raw (Hole h) @ rest) =
     raw (Hole h) @ ReplaceAll_scan (raw (Hole b)) v rest"
proof -
  have np: "\<not> prefix (b @ [CHR ''}'']) (h @ CHR ''}'' # rest)"
    using brace_prefix_eq[of b h rest] assms by auto
  have nd: "CHR ''$'' \<notin> set (''{.PVC.'' @ h @ ''}'')" using assms(2) by simp
  have "ReplaceAll_scan (raw (Hole b)) v (raw (Hole h) @ rest) =
      CHR ''$'' # ReplaceAll_scan (raw (Hole b)) v ((''{.PVC.'' @ h @ ''}'') @ rest)"
    using np by simp
  also have "\<dots> = CHR ''$'' # (''{.PVC.'' @ h @ ''}'') @ ReplaceAll_scan (raw (Hole b)) v rest"
    using scan_no_dollar[OF nd, of "''{.PVC.'' @ b @ ''}''" v rest] by simp
  finally show ?thesis by simp
qed

lemma scan_pieces:
  assumes "good (Hole b)"
  shows "list_all good ps \<Longrightarrow>
     ReplaceAll_scan (raw (Hole b)) v (concat (map raw ps)) = concat (map raw (fill b v ps))"
proof (induction ps)
  case Nil
  then show ?case by (simp add: fill_def)
next
  case (Cons pc ps)
  then have ih: "ReplaceAll_scan (raw (Hole b)) v (concat (map raw ps)) =
      concat (map raw (fill b v ps))" by simp
  have f: "fill b v (pc # ps) = (if pc = Hole b then map Lit v else [pc]) @ fill b v ps"
    by (simp add: fill_def)
  show ?case
  proof (cases pc)
    case (Lit c)
    then have "c \<noteq> CHR ''$''" using Cons.prems by simp
    then show ?thesis using Lit ih f by simp
  next
    case (Hole h)
    show ?thesis
    proof (cases "h = b")
      case True
      have "ReplaceAll_scan (raw (Hole b)) v (raw (Hole b) @ concat (map raw ps)) =
          v @ ReplaceAll_scan (raw (Hole b)) v (concat (map raw ps))"
        by (rule scan_same) simp
      then show ?thesis using Hole True ih f by (simp add: concat_raw_Lit)
    next
      case False
      have "good (Hole h)" using Cons.prems Hole by simp
      from scan_other_hole[OF assms this False, of v "concat (map raw ps)"]
      show ?thesis using Hole False ih f by simp
    qed
  qed
qed

lemma fill_good:
  "CHR ''$'' \<notin> set v \<Longrightarrow> list_all good ps \<Longrightarrow> list_all good (fill b v ps)"
  by (induction ps) (auto simp: fill_def list_all_iff)

lemma fill_rendered:
  "concat (map (rendered meta) (fill b (placeholderValue meta b) ps)) =
     concat (map (rendered meta) ps)"
proof (induction ps)
  case Nil
  then show ?case by (simp add: fill_def)
next
  case (Cons pc ps)
  have "concat (map (rendered meta) (map Lit v)) = v" for v
    by (induction v) auto
  then show ?case using Cons by (simp add: fill_def)
qed

lemma holeBodies_Lits: "holeBodies (map Lit v) = []"
  by (induction v) auto

lemma holeBodies_append: "holeBodies (xs @ ys) = holeBodies xs @ holeBodies ys"
  by (induction xs rule: holeBodies.induct) auto

lemma fill_holeBodies: "holeBodies (fill b v ps) = filter (\<lambda>h. h \<noteq> b) (holeBodies ps)"
proof (induction ps rule: holeBodies.induct)
  case 1
  then show ?case by (simp add: fill_def)
next
  case (2 c ps)
  then show ?case by (simp add: fill_def)
next
  case (3 h ps)
  have "fill b v (Hole h # ps) = (if h = b then map Lit v else [Hole h]) @ fill b v ps"
    by (simp add: fill_def)
  then show ?case using 3 by (simp add: holeBodies_append holeBodies_Lits)
qed

lemma no_holes_raw: "holeBodies ps = [] \<Longrightarrow> concat (map raw ps) = concat (map (rendered meta) ps)"
  by (induction ps rule: holeBodies.induct) auto

lemma placeholderValue_dollarFree: "dollarFree meta \<Longrightarrow> CHR ''$'' \<notin> set (placeholderValue meta b)"
  by (simp add: dollarFree_def placeholderValue_def)

lemma replaceMatch_groups:
  "replaceMatch meta str (groups b) = ReplaceAll str (raw (Hole b)) (placeholderValue meta b)"
  by (simp add: groups_def placeholderValue_def)

lemma ReplaceAll_pieces:
  assumes "good (Hole b)" and "list_all good ps" and "CHR ''$'' \<notin> set v"
  shows "ReplaceAll (concat (map raw ps)) (raw (Hole b)) v = concat (map raw (fill b v ps))"
proof -
  have "raw (Hole b) \<noteq> v" using assms(3) by auto
  then show ?thesis
    using scan_pieces[OF assms(1,2), of v] by (simp add: ReplaceAll_def)
qed

lemma fold_pieces:
  assumes "dollarFree meta"
  shows "list_all good ps \<Longrightarrow> list_all (\<lambda>b. good (Hole b)) bs \<Longrightarrow>
     set (holeBodies ps) \<subseteq> set bs \<Longrightarrow>
     foldl (replaceMatch meta) (concat (map raw ps)) (map groups bs) =
       concat (map (rendered meta) ps)"
proof (induction bs arbitrary: ps)
  case Nil
  then show ?case by (simp add: no_holes_raw)
next
  case (Cons b bs)
  let ?v = "placeholderValue meta b"
  let ?ps = "fill b ?v ps"
  have v: "CHR ''$'' \<notin> set ?v" by (rule placeholderValue_dollarFree[OF assms])
  have gb: "good (Hole b)" using Cons.prems(2) by simp
  have 1: "list_all good ?ps" by (rule fill_good[OF v Cons.prems(1)])
  have 2: "list_all (\<lambda>b. good (Hole b)) bs" using Cons.prems(2) by simp
  have 3: "set (holeBodies ?ps) \<subseteq> set bs"
    using Cons.prems(3) by (auto simp: fill_holeBodies)
  have step: "replaceMatch meta (concat (map raw ps)) (groups b) = concat (map raw ?ps)"
    unfolding replaceMatch_groups by (rule ReplaceAll_pieces[OF gb Cons.prems(1) v])
  have "foldl (replaceMatch meta) (concat (map raw ps)) (map groups (b # bs)) =
      foldl (replaceMatch meta) (concat (map raw ?ps)) (map groups bs)"
    by (simp only: list.map foldl.simps step)
  also have "\<dots> = concat (map (rendered meta) ?ps)"
    by (rule Cons.IH[OF 1 2 3])
  also have "\<dots> = concat (map (rendered meta) ps)"
    by (rule fill_rendered)
  finally show ?case .
qed

lemma dollars_simps:
  "dollars [] = 0"
  "dollars (c # s) = (if c = CHR ''$'' then 1 else 0) + dollars s"
  "dollars (s @ t) = dollars s + dollars t"
  by (simp_all add: dollars_def)

lemma dollars_zero: "dollars s = 0 \<longleftrightarrow> CHR ''$'' \<notin> set s"
  by (induction s) (auto simp: dollars_simps)

lemma dollars_pieces:
  "length (holeBodies ps) \<le> dollars (concat (map raw ps)) \<and>
   (dollars (concat (map raw ps)) = length (holeBodies ps) \<longrightarrow>
      (\<forall>pc\<in>set ps. case pc of Lit c \<Rightarrow> c \<noteq> CHR ''$'' | Hole b \<Rightarrow> CHR ''$'' \<notin> set b))"
proof (induction ps rule: holeBodies.induct)
  case 1
  then show ?case by (simp add: dollars_simps)
next
  case (2 c ps)
  then show ?case by (auto simp: dollars_simps)
next
  case (3 b ps)
  have "dollars (raw (Hole b)) = 1 + dollars b" by (simp add: dollars_simps)
  then show ?case using 3 by (auto simp: dollars_simps dollars_zero[symmetric])
qed

lemma good_pieces:
  assumes "dollars str = length (FindAllStringSubmatch str)"
  shows "list_all good (pieces str)"
proof -
  have "dollars (concat (map raw (pieces str))) = length (holeBodies (pieces str))"
    using assms by (simp add: concat_raw_pieces FindAll_pieces)
  then have d: "\<forall>pc\<in>set (pieces str). case pc of Lit c \<Rightarrow> c \<noteq> CHR ''$'' | Hole b \<Rightarrow> CHR ''$'' \<notin> set b"
    using dollars_pieces[of "pieces str"] by blast
  show ?thesis
    unfolding list_all_iff
  proof
    fix pc assume pc: "pc \<in> set (pieces str)"
    show "good pc"
    proof (cases pc)
      case (Lit c)
      then show ?thesis using d pc by auto
    next
      case (Hole b)
      then show ?thesis using d pc pieces_holes_notBrace[of b str] by auto
    qed
  qed
qed

lemma holeBodies_set: "b \<in> set (holeBodies ps) \<longleftrightarrow> Hole b \<in> set ps"
  by (induction ps rule: holeBodies.induct) auto

lemma stringParser_single_pass:
  assumes "dollars str = length (FindAllStringSubmatch str)" and "dollarFree meta"
  shows "stringParser meta str = substituteOnce meta str"
proof -
  let ?ps = "pieces str"
  have g: "list_all good ?ps" by (rule good_pieces[OF assms(1)])
  have gb: "list_all (\<lambda>b. good (Hole b)) (holeBodies ?ps)"
    using g by (auto simp: list_all_iff holeBodies_set simp del: good.simps)
  have "stringParser meta str =
      foldl (replaceMatch meta) (concat (map raw ?ps)) (map groups (holeBodies ?ps))"
    by (simp add: stringParser_def concat_raw_pieces FindAll_pieces)
  also have "\<dots> = concat (map (rendered meta) ?ps)"
    by (rule fold_pieces[OF assms(2) g gb]) simp
  finally show ?thesis by (simp add: substituteOnce_pieces)
qed

subsection \<open>The metadata resolver\<close>

lemmas regexp_defs = matchAt_def firstAlternative_def lazyUntilBrace_def stripPrefix_def
lemmas placeholder_defs = placeholderAt_def lazyUntilBrace_def stripPrefix_def placeholderValue_def

lemma example_metadata:
  "data (metadataOf (exampleOptions ps an)) = [''name'' \<mapsto> ''data'', ''namespace'' \<mapsto> ''default'']"
  "labels (metadataOf (exampleOptions ps an)) = [''tier'' \<mapsto> ''gold'']"
  "annotations (metadataOf (exampleOptions ps an)) = an"
  by (simp_all add: metadataOf_def exampleOptions_def)

lemma example_injected_matches:
  "FindAllStringSubmatch ''${.PVC.annotations.a}/${.PVC.name}'' =
     [(''${.PVC.annotations.a}'', ''annotations.a'', ''annotations'', ''a''),
      (''${.PVC.name}'', ''name'', [], [])]"
  by (simp add: regexp_defs)

lemma example_injected_first:
  "ReplaceAll ''${.PVC.annotations.a}/${.PVC.name}'' ''${.PVC.annotations.a}'' ''${.PVC.name}'' =
     ''${.PVC.name}/${.PVC.name}''"
  by (simp add: ReplaceAll_def)

lemma example_injected_second:
  "ReplaceAll ''${.PVC.name}/${.PVC.name}'' ''${.PVC.name}'' ''data'' = ''data/data''"
  by (simp add: ReplaceAll_def)

lemma example_injected_run:
  "stringParser (metadataOf (exampleOptions ps injectedAnnotations))
     ''${.PVC.annotations.a}/${.PVC.name}'' = ''data/data''"
  unfolding stringParser_def example_injected_matches
  by (simp add: example_metadata injectedAnnotations_def lookup_def
      example_injected_first example_injected_second)

lemma example_injected_once:
  "substituteOnce (metadataOf (exampleOptions ps injectedAnnotations))
     ''${.PVC.annotations.a}/${.PVC.name}'' = ''${.PVC.name}/data''"
  by (simp add: placeholder_defs example_metadata injectedAnnotations_def lookup_def)

text \<open>
  C10. \<open>stringParser\<close> collects the matches of the template as it was given and then,
  match by match, replaces every occurrence of the text of the match in the string
  obtained so far. With the annotation \<open>a\<close> set to \<open>${.PVC.name}\<close> and the template
  \<open>${.PVC.annotations.a}/${.PVC.name}\<close>, the first replacement brings the text of the
  second match into the string and the second replacement replaces it too: the result
  is \<open>data/data\<close>, where one pass over the template gives \<open>${.PVC.name}/data\<close>.
\<close>

theorem stringParser_not_single_pass:
  "stringParser meta str = foldl (replaceMatch meta) str (FindAllStringSubmatch str) \<and>
   replaceMatch meta str (groups body) =
     ReplaceAll str (''${.PVC.'' @ body @ ''}'') (placeholderValue meta body) \<and>
   FindAllStringSubmatch ''${.PVC.annotations.a}/${.PVC.name}'' =
     [groups ''annotations.a'', groups ''name''] \<and>
   placeholderValue (metadataOf (exampleOptions Map.empty injectedAnnotations)) ''annotations.a'' =
     ''${.PVC.name}'' \<and>
   ReplaceAll ''${.PVC.annotations.a}/${.PVC.name}'' ''${.PVC.annotations.a}'' ''${.PVC.name}'' =
     ''${.PVC.name}/${.PVC.name}'' \<and>
   stringParser (metadataOf (exampleOptions Map.empty injectedAnnotations))
     ''${.PVC.annotations.a}/${.PVC.name}'' = ''data/data'' \<and>
   substituteOnce (metadataOf (exampleOptions Map.empty injectedAnnotations))
     ''${.PVC.annotations.a}/${.PVC.name}'' = ''${.PVC.name}/data''"
proof (intro conjI)
  show "stringParser meta str = foldl (replaceMatch meta) str (FindAllStringSubmatch str)"
    by (simp add: stringParser_def)
  show "replaceMatch meta str (groups body) =
     ReplaceAll str (''${.PVC.'' @ body @ ''}'') (placeholderValue meta body)"
    using replaceMatch_groups [of meta str body] by simp
  show "FindAllStringSubmatch ''${.PVC.annotations.a}/${.PVC.name}'' =
     [groups ''annotations.a'', groups ''name'']"
    unfolding example_injected_matches by (simp add: groups_def)
  show "placeholderValue (metadataOf (exampleOptions Map.empty injectedAnnotations)) ''annotations.a'' =
     ''${.PVC.name}''"
    by (simp add: placeholderValue_def example_metadata injectedAnnotations_def lookup_def)
qed (rule example_injected_first example_injected_run example_injected_once)+

theorem stringParser_not_single_pass_witness:
  "stringParser (metadataOf (exampleOptions Map.empty injectedAnnotations))
     ''${.PVC.annotations.a}/${.PVC.name}'' \<noteq>
   substituteOnce (metadataOf (exampleOptions Map.empty injectedAnnotations))
     ''${.PVC.annotations.a}/${.PVC.name}''"
  using stringParser_not_single_pass [of "metadataOf (exampleOptions Map.empty injectedAnnotations)" "[]" "[]"]
  by simp

text \<open>
  C5, as stated, fails on a value that contains the text of a placeholder: with the
  annotation \<open>dir\<close> set to \<open>${.PVC.name}\<close>, the template
  \<open>${.PVC.annotations.dir}/${.PVC.namespace}/${.PVC.name}\<close> with every placeholder
  replaced by its value is \<open>${.PVC.name}/default/data\<close>; \<open>stringParser\<close> returns
  \<open>data/default/data\<close>.
\<close>

theorem stringParser_counterexample:
  "placeholderValue (metadataOf (exampleOptions Map.empty dirAnnotations))
     ''annotations.dir'' = ''${.PVC.name}'' \<and>
   substituteOnce (metadataOf (exampleOptions Map.empty dirAnnotations))
     ''${.PVC.annotations.dir}/${.PVC.namespace}/${.PVC.name}'' = ''${.PVC.name}/default/data'' \<and>
   stringParser (metadataOf (exampleOptions Map.empty dirAnnotations))
     ''${.PVC.annotations.dir}/${.PVC.namespace}/${.PVC.name}'' = ''data/default/data''"
proof (intro conjI)
  show "placeholderValue (metadataOf (exampleOptions Map.empty dirAnnotations))
     ''annotations.dir'' = ''${.PVC.name}''"
    by (simp add: placeholderValue_def example_metadata dirAnnotations_def lookup_def)
  show "substituteOnce (metadataOf (exampleOptions Map.empty dirAnnotations))
     ''${.PVC.annotations.dir}/${.PVC.namespace}/${.PVC.name}'' = ''${.PVC.name}/default/data''"
    by (simp add: placeholder_defs example_metadata dirAnnotations_def lookup_def)
  have m: "FindAllStringSubmatch ''${.PVC.annotations.dir}/${.PVC.namespace}/${.PVC.name}'' =
     [(''${.PVC.annotations.dir}'', ''annotations.dir'', ''annotations'', ''dir''),
      (''${.PVC.namespace}'', ''namespace'', [], []),
      (''${.PVC.name}'', ''name'', [], [])]"
    by (simp add: regexp_defs)
  have 1: "ReplaceAll ''${.PVC.annotations.dir}/${.PVC.namespace}/${.PVC.name}''
      ''${.PVC.annotations.dir}'' ''${.PVC.name}'' = ''${.PVC.name}/${.PVC.namespace}/${.PVC.name}''"
    by (simp add: ReplaceAll_def)
  have 2: "ReplaceAll ''${.PVC.name}/${.PVC.namespace}/${.PVC.name}''
      ''${.PVC.namespace}'' ''default'' = ''${.PVC.name}/default/${.PVC.name}''"
    by (simp add: ReplaceAll_def)
  have 3: "ReplaceAll ''${.PVC.name}/default/${.PVC.name}'' ''${.PVC.name}'' ''data'' =
      ''data/default/data''"
    by (simp add: ReplaceAll_def)
  show "stringParser (metadataOf (exampleOptions Map.empty dirAnnotations))
     ''${.PVC.annotations.dir}/${.PVC.namespace}/${.PVC.name}'' = ''data/default/data''"
    unfolding stringParser_def m
    by (simp add: example_metadata dirAnnotations_def lookup_def 1 2 3)
qed

text \<open>
  C5, amended. For a template in which every \<open>$\<close> opens a placeholder (it has as many
  \<open>$\<close> characters as the pattern has matches) and metadata none of whose values
  contains a \<open>$\<close>, \<open>stringParser\<close> returns the template with every placeholder replaced
  by its value, the empty string for a field or key that is absent. The result is a
  function of the metadata and the template.
\<close>

theorem stringParser_replaces_placeholders:
  assumes "dollars str = length (FindAllStringSubmatch str)" and "dollarFree meta"
  shows "stringParser meta str = substituteOnce meta str"
  using assms by (rule stringParser_single_pass)

lemma example_dollarFree: "dollarFree (metadataOf (exampleOptions ps Map.empty))"
  by (simp add: dollarFree_def example_metadata lookup_def)

theorem stringParser_replaces_placeholders_witness:
  "dollars ''${.PVC.labels.tier}/${.PVC.name}-${.PVC.labels.zone}'' = 3 \<and>
   length (FindAllStringSubmatch ''${.PVC.labels.tier}/${.PVC.name}-${.PVC.labels.zone}'') = 3 \<and>
   dollarFree (metadataOf (exampleOptions Map.empty Map.empty)) \<and>
   substituteOnce (metadataOf (exampleOptions Map.empty Map.empty))
     ''${.PVC.labels.tier}/${.PVC.name}-${.PVC.labels.zone}'' = ''gold/data-'' \<and>
   stringParser (metadataOf (exampleOptions Map.empty Map.empty))
     ''${.PVC.labels.tier}/${.PVC.name}-${.PVC.labels.zone}'' = ''gold/data-''"
proof -
  have d: "dollars ''${.PVC.labels.tier}/${.PVC.name}-${.PVC.labels.zone}'' = 3"
    by (simp add: dollars_def)
  have m: "length (FindAllStringSubmatch ''${.PVC.labels.tier}/${.PVC.name}-${.PVC.labels.zone}'') = 3"
    by (simp add: regexp_defs)
  have s: "substituteOnce (metadataOf (exampleOptions Map.empty Map.empty))
     ''${.PVC.labels.tier}/${.PVC.name}-${.PVC.labels.zone}'' = ''gold/data-''"
    by (simp add: placeholder_defs example_metadata lookup_def)
  show ?thesis
    using stringParser_replaces_placeholders [OF d [unfolded m [symmetric]] example_dollarFree]
      d m s example_dollarFree
    by simp
qed

subsection \<open>Provision: the two paths\<close>







end
